theory Spec2Isabelle
  imports Complex_Main "HOL-Library.Multiset"
begin

section \<open>Conventions\<close>

text \<open>
  The development embeds five parts of PRBrain: the unified-diff parser
  (\<^verbatim>\<open>src/utils/diff-parser.ts\<close>), the text similarity and the duplicate search of the
  \<^verbatim>\<open>Deduplicator\<close> class, the embedding store of \<^verbatim>\<open>src/adapters/storage.ts\<close>, and the
  lexical search of \<^verbatim>\<open>src/adapters/github.ts\<close> with the way \<^verbatim>\<open>src/index.ts\<close> connects it to
  the deduplicator.

  \<^item> A JavaScript string is a \<^typ>\<open>string\<close>; a character stands for one code unit in the
    range U+0000 to U+00FF.
  \<^item> A JavaScript number that holds a similarity is a \<^typ>\<open>real\<close>: the arithmetic is the
    exact one, rounding of doubles is not modelled. PR numbers are \<^typ>\<open>int\<close>, line
    numbers and counts are \<^typ>\<open>nat\<close>.
  \<^item> A \<^verbatim>\<open>createdAt\<close> or \<^verbatim>\<open>lastUpdated\<close> field holds the instant denoted by its ISO
    string, in milliseconds (what \<^verbatim>\<open>new Date(s).getTime()\<close> returns for a valid date).
  \<^item> An awaited call that may reject returns \<open>error + 'a\<close>, with \<open>Inl\<close> the rejection; a
    \<^verbatim>\<open>try\<close>/\<^verbatim>\<open>catch\<close> is a case distinction on that value.
  \<^item> \<^verbatim>\<open>Array.prototype.sort\<close> is stable; with a comparator \<^verbatim>\<open>(a, b) => key(b) - key(a)\<close> it
    is \<^const>\<open>sort_key\<close> on the negated key.
\<close>

section \<open>Data model (src/types/index.ts)\<close>

datatype item_type = PR | Issue

datatype item_status = Open | Closed | Merged | Draft

record SimilarItem =
  si_type :: item_type
  si_number :: int
  si_title :: string
  si_similarity :: real
  si_status :: item_status
  si_url :: string

record EmbeddingData =
  ed_id :: string
  ed_type :: item_type
  ed_number :: int
  ed_title :: string
  ed_body :: string
  ed_embedding :: "real list"
  ed_createdAt :: int

text \<open>An element of \<^verbatim>\<open>Array<EmbeddingData & { similarity: number }>\<close>.\<close>

record ScoredEmbedding = EmbeddingData +
  ed_similarity :: real

record DeduplicationResult =
  similarItems :: "SimilarItem list"
  isDuplicate :: bool
  duplicateThreshold :: real

text \<open>The fields of \<^verbatim>\<open>PRContext\<close> that the deduplicator reads.\<close>

record PRContext =
  ctx_number :: int
  ctx_title :: string
  ctx_body :: "string option"

record StoredEmbeddings =
  version :: string
  embeddings :: "EmbeddingData list"
  lastUpdated :: int

datatype line_type = Added | Removed | Context

record DiffLine =
  lineType :: line_type
  content :: string
  lineNumber :: nat

record DiffChunk =
  oldStart :: nat
  oldLines :: nat
  newStart :: nat
  newLines :: nat
  lines :: "DiffLine list"

datatype error =
  ENOENT | EIO | SyntaxError | TypeError | OpenAIError | GitHubError

section \<open>String primitives of the runtime\<close>

definition startsWith :: "string \<Rightarrow> string \<Rightarrow> bool" where
  "startsWith s p \<longleftrightarrow> take (length p) s = p"

text \<open>\<^verbatim>\<open>s.split(sep)\<close> for a separator of one character.\<close>

fun splitOn :: "char \<Rightarrow> string \<Rightarrow> string list" where
  "splitOn sep [] = [[]]"
| "splitOn sep (c # cs) =
     (if c = sep then [] # splitOn sep cs
      else (case splitOn sep cs of w # ws \<Rightarrow> (c # w) # ws | [] \<Rightarrow> [[c]]))"

text \<open>\<^verbatim>\<open>parts.join('\n')\<close>.\<close>

fun joinLines :: "string list \<Rightarrow> string" where
  "joinLines [] = []"
| "joinLines [l] = l"
| "joinLines (l # ls) = l @ CHR 0x0A # joinLines ls"

text \<open>The classes \<^verbatim>\<open>\w\<close>, \<^verbatim>\<open>\s\<close> and \<^verbatim>\<open>\d\<close> of a regular expression without flags.\<close>

definition isWordChar :: "char \<Rightarrow> bool" where
  "isWordChar c = (let n = (of_char c :: nat) in
     (48 \<le> n \<and> n \<le> 57) \<or> (65 \<le> n \<and> n \<le> 90) \<or> n = 95 \<or> (97 \<le> n \<and> n \<le> 122))"

definition isWhiteSpace :: "char \<Rightarrow> bool" where
  "isWhiteSpace c = (let n = (of_char c :: nat) in (9 \<le> n \<and> n \<le> 13) \<or> n = 32 \<or> n = 160)"

definition isDigit :: "char \<Rightarrow> bool" where
  "isDigit c = (let n = (of_char c :: nat) in 48 \<le> n \<and> n \<le> 57)"

definition toLowerCaseChar :: "char \<Rightarrow> char" where
  "toLowerCaseChar c = (let n = (of_char c :: nat) in
     if (65 \<le> n \<and> n \<le> 90) \<or> (192 \<le> n \<and> n \<le> 222 \<and> n \<noteq> 215) then char_of (n + 32) else c)"

definition toLowerCase :: "string \<Rightarrow> string" where
  "toLowerCase s = map toLowerCaseChar s"

definition trim :: "string \<Rightarrow> string" where
  "trim s = rev (dropWhile isWhiteSpace (rev (dropWhile isWhiteSpace s)))"

text \<open>\<^verbatim>\<open>parseInt(digits, 10)\<close> on a string of decimal digits.\<close>

definition parseInt :: "string \<Rightarrow> nat" where
  "parseInt ds = foldl (\<lambda>acc d. acc * 10 + (of_char d - 48)) 0 ds"

text \<open>The decimal text of a number inside a template string.\<close>

function show_nat :: "nat \<Rightarrow> string" where
  "show_nat n = (if n < 10 then [char_of (48 + n)]
                 else show_nat (n div 10) @ [char_of (48 + n mod 10)])"
  by pat_completeness auto
termination
  by (relation "measure id") auto

definition show_number :: "int \<Rightarrow> string" where
  "show_number i = (if i < 0 then CHR ''-'' # show_nat (nat (- i)) else show_nat (nat i))"

section \<open>DiffParser (src/utils/diff-parser.ts)\<close>

subsection \<open>The chunk header\<close>

text \<open>
  \<^verbatim>\<open>line.match(/^@@ -(\d+)(?:,(\d+))? \+(\d+)(?:,(\d+))? @@/)\<close>. Every quantifier of the
  expression is followed by a character outside the class it repeats, so the greedy
  match is the only one and the expression is read from left to right.
\<close>

definition matchDigits :: "string \<Rightarrow> (string \<times> string) option" where
  "matchDigits s = (let ds = takeWhile isDigit s in
     if ds = [] then None else Some (ds, dropWhile isDigit s))"

definition matchOptionalCount :: "string \<Rightarrow> string option \<times> string" where
  "matchOptionalCount s =
     (case s of
        [] \<Rightarrow> (None, s)
      | c # r \<Rightarrow>
          (if c = CHR '','' then
             (case matchDigits r of Some (ds, r') \<Rightarrow> (Some ds, r') | None \<Rightarrow> (None, s))
           else (None, s)))"

definition matchLiteral :: "string \<Rightarrow> string \<Rightarrow> string option" where
  "matchLiteral p s = (if startsWith s p then Some (drop (length p) s) else None)"

definition chunkMatch :: "string \<Rightarrow> (string \<times> string option \<times> string \<times> string option) option" where
  "chunkMatch line =
     (case matchLiteral ''@@ -'' line of None \<Rightarrow> None | Some r1 \<Rightarrow>
     (case matchDigits r1 of None \<Rightarrow> None | Some (g1, r2) \<Rightarrow>
     (case matchOptionalCount r2 of (g2, r3) \<Rightarrow>
     (case matchLiteral '' +'' r3 of None \<Rightarrow> None | Some r4 \<Rightarrow>
     (case matchDigits r4 of None \<Rightarrow> None | Some (g3, r5) \<Rightarrow>
     (case matchOptionalCount r5 of (g4, r6) \<Rightarrow>
     (case matchLiteral '' @@'' r6 of None \<Rightarrow> None | Some _ \<Rightarrow> Some (g1, g2, g3, g4))))))))"

subsection \<open>parseDiff\<close>

record parse_state =
  chunks :: "DiffChunk list"
  currentChunk :: "DiffChunk option"

definition isMetadata :: "string \<Rightarrow> bool" where
  "isMetadata line \<longleftrightarrow>
     startsWith line ''diff --git'' \<or> startsWith line ''index '' \<or>
     startsWith line ''---'' \<or> startsWith line ''+++''"

definition newChunk :: "string \<times> string option \<times> string \<times> string option \<Rightarrow> DiffChunk" where
  "newChunk m = (case m of (g1, g2, g3, g4) \<Rightarrow>
     \<lparr> oldStart = parseInt g1,
       oldLines = parseInt (case g2 of Some d \<Rightarrow> d | None \<Rightarrow> ''1''),
       newStart = parseInt g3,
       newLines = parseInt (case g4 of Some d \<Rightarrow> d | None \<Rightarrow> ''1''),
       lines = [] \<rparr>)"

definition diffLine :: "DiffChunk \<Rightarrow> string \<Rightarrow> DiffLine" where
  "diffLine chunk line =
     (let type = (if startsWith line ''+'' then Added
                  else if startsWith line ''-'' then Removed else Context);
          content = drop 1 line;
          lineNumber =
            (if type = Added
             then newStart chunk + length (filter (\<lambda>l. lineType l \<noteq> Removed) (lines chunk))
             else oldStart chunk + length (filter (\<lambda>l. lineType l \<noteq> Added) (lines chunk)))
      in \<lparr> lineType = type, content = content, lineNumber = lineNumber \<rparr>)"

text \<open>One iteration of \<^verbatim>\<open>for (const line of lines)\<close>.\<close>

definition parseLine :: "parse_state \<Rightarrow> string \<Rightarrow> parse_state" where
  "parseLine st line =
     (case chunkMatch line of
        Some m \<Rightarrow>
          \<lparr> chunks = (case currentChunk st of Some c \<Rightarrow> chunks st @ [c] | None \<Rightarrow> chunks st),
            currentChunk = Some (newChunk m) \<rparr>
      | None \<Rightarrow>
          (if isMetadata line then st
           else (case currentChunk st of
                   Some c \<Rightarrow>
                     (if startsWith line ''+'' \<or> startsWith line ''-'' \<or> startsWith line '' ''
                      then st\<lparr> currentChunk := Some (c\<lparr> lines := lines c @ [diffLine c line] \<rparr>) \<rparr>
                      else st)
                 | None \<Rightarrow> st)))"

definition initial :: parse_state where
  "initial = \<lparr> chunks = [], currentChunk = None \<rparr>"

definition finish :: "parse_state \<Rightarrow> DiffChunk list" where
  "finish st = (case currentChunk st of Some c \<Rightarrow> chunks st @ [c] | None \<Rightarrow> chunks st)"

definition parseDiff :: "string \<Rightarrow> DiffChunk list" where
  "parseDiff diff =
     (if diff = [] then []
      else finish (foldl parseLine initial (splitOn (CHR 0x0A) diff)))"

subsection \<open>Properties of chunks\<close>

text \<open>
  A chunk whose every line carries the number that \<^verbatim>\<open>parseDiff\<close> computes from the lines
  before it.
\<close>

definition numbered :: "DiffChunk \<Rightarrow> bool" where
  "numbered c \<longleftrightarrow>
     (\<forall>i < length (lines c).
        lineNumber (lines c ! i) =
          (if lineType (lines c ! i) = Added
           then newStart c + length (filter (\<lambda>l. lineType l \<noteq> Removed) (take i (lines c)))
           else oldStart c + length (filter (\<lambda>l. lineType l \<noteq> Added) (take i (lines c)))))"

text \<open>The same header, and the lines of the first chunk at the start of the second.\<close>

definition extends :: "DiffChunk \<Rightarrow> DiffChunk \<Rightarrow> bool" where
  "extends c c' \<longleftrightarrow>
     oldStart c' = oldStart c \<and> oldLines c' = oldLines c \<and>
     newStart c' = newStart c \<and> newLines c' = newLines c \<and>
     take (length (lines c)) (lines c') = lines c"

definition grows :: "DiffChunk list \<Rightarrow> DiffChunk list \<Rightarrow> bool" where
  "grows xs ys \<longleftrightarrow> length xs \<le> length ys \<and> (\<forall>i < length xs. extends (xs ! i) (ys ! i))"

text \<open>\<open>appendedTo c l c'\<close>: the chunk \<open>c'\<close> is \<open>c\<close> with \<open>l\<close> after its lines, and then more.\<close>

definition appendedTo :: "DiffChunk \<Rightarrow> DiffLine \<Rightarrow> DiffChunk \<Rightarrow> bool" where
  "appendedTo c l c' \<longleftrightarrow>
     oldStart c' = oldStart c \<and> oldLines c' = oldLines c \<and>
     newStart c' = newStart c \<and> newLines c' = newLines c \<and>
     take (Suc (length (lines c))) (lines c') = lines c @ [l]"

subsection \<open>extractFunctionChanges\<close>

text \<open>
  The six signature patterns of \<^verbatim>\<open>detectFunctionDefinition\<close>, in the order of the array
  literal. What an expression matches is decided by the regular-expression engine of the
  runtime: \<open>rmatch p s\<close> stands for \<^verbatim>\<open>s.match(p)\<close>, \<open>None\<close> for \<^verbatim>\<open>null\<close> and otherwise the
  match array, whose entry of index 1 is the first group (\<open>None\<close> when it took no part).
\<close>

datatype pattern =
  JsFunction | JsMethod | PythonDef | JavaMethod | GoFunc | RustFn

definition patterns :: "pattern list" where
  "patterns = [JsFunction, JsMethod, PythonDef, JavaMethod, GoFunc, RustFn]"

type_synonym regexp_engine = "pattern \<Rightarrow> string \<Rightarrow> string option list option"

fun firstMatch :: "regexp_engine \<Rightarrow> pattern list \<Rightarrow> string \<Rightarrow> string option" where
  "firstMatch rmatch [] s = None"
| "firstMatch rmatch (p # ps) s =
     (case rmatch p s of
        None \<Rightarrow> firstMatch rmatch ps s
      | Some m \<Rightarrow>
          (case (if 1 < length m then m ! 1 else None) of
             None \<Rightarrow> firstMatch rmatch ps s
           | Some g \<Rightarrow> if g \<noteq> [] then Some g else firstMatch rmatch ps s))"

definition detectFunctionDefinition :: "regexp_engine \<Rightarrow> string \<Rightarrow> string option \<Rightarrow> string option" where
  "detectFunctionDefinition rmatch line language =
     (let trimmedLine = trim line in firstMatch rmatch patterns trimmedLine)"

text \<open>
  One iteration of the inner loop: the state is \<^verbatim>\<open>currentFunction\<close> and the \<^verbatim>\<open>changes\<close>
  pushed so far.
\<close>

definition functionLine ::
  "regexp_engine \<Rightarrow> string option \<Rightarrow> string \<times> string list \<Rightarrow> DiffLine \<Rightarrow> string \<times> string list" where
  "functionLine rmatch language st line =
     (case st of (currentFunction, changes) \<Rightarrow>
        (if lineType line \<noteq> Context then
           (case detectFunctionDefinition rmatch (content line) language of
              Some functionMatch \<Rightarrow>
                (functionMatch,
                 changes @ [(if lineType line = Added then ''Added'' else ''Modified'')
                            @ '' function: '' @ functionMatch])
            | None \<Rightarrow>
                (if currentFunction \<noteq> [] \<and> trim (content line) \<noteq> [] then
                   (if lineType line = Added then
                      (currentFunction,
                       changes @ [''Added to '' @ currentFunction @ '': '' @ trim (content line)])
                    else if lineType line = Removed then
                      (currentFunction,
                       changes @ [''Removed from '' @ currentFunction @ '': '' @ trim (content line)])
                    else st)
                 else st))
         else st))"

definition functionChunk ::
  "regexp_engine \<Rightarrow> string option \<Rightarrow> string list \<Rightarrow> DiffChunk \<Rightarrow> string list" where
  "functionChunk rmatch language changes chunk =
     snd (foldl (functionLine rmatch language) ([], changes) (lines chunk))"

definition extractFunctionChanges :: "regexp_engine \<Rightarrow> string \<Rightarrow> string option \<Rightarrow> string list" where
  "extractFunctionChanges rmatch diff language =
     take 10 (foldl (functionChunk rmatch language) [] (parseDiff diff))"

section \<open>Text similarity (Deduplicator.calculateTextSimilarity)\<close>

text \<open>\<^verbatim>\<open>.replace(/[^\w\s]/g, ' ')\<close> and \<^verbatim>\<open>.replace(/\s+/g, ' ')\<close>.\<close>

definition replaceNonWord :: "string \<Rightarrow> string" where
  "replaceNonWord s = map (\<lambda>c. if isWordChar c \<or> isWhiteSpace c then c else CHR '' '') s"

function collapseWhiteSpace :: "string \<Rightarrow> string" where
  "collapseWhiteSpace [] = []"
| "collapseWhiteSpace (c # cs) =
     (if isWhiteSpace c then CHR '' '' # collapseWhiteSpace (dropWhile isWhiteSpace cs)
      else c # collapseWhiteSpace cs)"
  by pat_completeness auto
termination
  by (relation "measure length") (auto simp: length_dropWhile_le less_Suc_eq_le)

definition normalize :: "string \<Rightarrow> string" where
  "normalize text = trim (collapseWhiteSpace (replaceNonWord (toLowerCase text)))"

text \<open>
  \<^verbatim>\<open>new Set(xs)\<close>: the elements in the order of their first insertion, \<^verbatim>\<open>size\<close> being the
  length.
\<close>

definition newSet :: "'a list \<Rightarrow> 'a list" where
  "newSet xs = foldl (\<lambda>acc x. if x \<in> set acc then acc else acc @ [x]) [] xs"

fun firstIndex :: "'a \<Rightarrow> 'a list \<Rightarrow> nat option" where
  "firstIndex c [] = None"
| "firstIndex c (x # xs) = (if x = c then Some 0 else map_option Suc (firstIndex c xs))"

text \<open>\<^verbatim>\<open>s.indexOf(c, j)\<close> for \<open>j\<close> within the string; \<open>None\<close> stands for \<open>-1\<close>.\<close>

definition indexOf :: "'a list \<Rightarrow> 'a \<Rightarrow> nat \<Rightarrow> nat option" where
  "indexOf s c j = map_option (\<lambda>k. j + k) (firstIndex c (drop j s))"

text \<open>
  The scanning loop of \<^verbatim>\<open>calculateCharacterSimilarity\<close>: the first argument is what is
  left of \<^verbatim>\<open>shorter\<close> from index \<^verbatim>\<open>i\<close> on.
\<close>

fun scanMatches :: "string \<Rightarrow> string \<Rightarrow> nat \<Rightarrow> nat \<Rightarrow> nat" where
  "scanMatches [] longer j matches = matches"
| "scanMatches (c # rest) longer j matches =
     (if j < length longer then
        (case indexOf longer c j of
           Some found \<Rightarrow> scanMatches rest longer (found + 1) (matches + 1)
         | None \<Rightarrow> scanMatches rest longer j matches)
      else matches)"

definition calculateCharacterSimilarity :: "string \<Rightarrow> string \<Rightarrow> real" where
  "calculateCharacterSimilarity text1 text2 =
     (let shorter = (if length text1 < length text2 then text1 else text2);
          longer = (if length text1 \<ge> length text2 then text1 else text2)
      in if length shorter = 0 then 0
         else real (scanMatches shorter longer 0 0) / real (length longer))"

definition calculateTextSimilarity :: "string \<Rightarrow> string \<Rightarrow> real" where
  "calculateTextSimilarity text1 text2 =
     (let normalized1 = normalize text1;
          normalized2 = normalize text2
      in if normalized1 = [] \<or> normalized2 = [] then 0
         else
           let words1 = newSet (splitOn CHR '' '' normalized1);
               words2 = newSet (splitOn CHR '' '' normalized2);
               intersection = newSet (filter (\<lambda>x. x \<in> set words2) words1);
               union = newSet (words1 @ words2);
               jaccardSimilarity =
                 (if length union > 0 then real (length intersection) / real (length union) else 0);
               charSimilarity = calculateCharacterSimilarity normalized1 normalized2
           in jaccardSimilarity * (7/10) + charSimilarity * (3/10))"

section \<open>StorageAdapter (src/adapters/storage.ts)\<close>

text \<open>
  The file \<^verbatim>\<open>.prbrain/embeddings.json\<close>: absent, present but not readable, or holding a
  text. The text is not JSON, or it is the JSON value \<^verbatim>\<open>null\<close>, or an object of which the
  fields \<^verbatim>\<open>version\<close> and \<^verbatim>\<open>embeddings\<close> may be missing.
\<close>

datatype json =
  JNull
| JObject (j_version: "string option") (j_embeddings: "EmbeddingData list option") (j_lastUpdated: int)

datatype file_text = NotJson | Json json

datatype disk = NoFile | Unreadable | File file_text

definition EMBEDDING_VERSION :: string where
  "EMBEDDING_VERSION = ''1.0''"

definition MAX_EMBEDDINGS :: nat where
  "MAX_EMBEDDINGS = 1000"

definition readFile :: "disk \<Rightarrow> error + file_text" where
  "readFile d = (case d of NoFile \<Rightarrow> Inl ENOENT | Unreadable \<Rightarrow> Inl EIO | File t \<Rightarrow> Inr t)"

definition JSON_parse :: "file_text \<Rightarrow> error + json" where
  "JSON_parse t = (case t of NotJson \<Rightarrow> Inl SyntaxError | Json j \<Rightarrow> Inr j)"


definition createEmptyEmbeddings :: "int \<Rightarrow> StoredEmbeddings" where
  "createEmptyEmbeddings now = \<lparr> version = EMBEDDING_VERSION, embeddings = [], lastUpdated = now \<rparr>"

text \<open>The body of the \<^verbatim>\<open>try\<close> block of \<^verbatim>\<open>loadEmbeddings\<close>.\<close>

definition loadEmbeddings_try :: "disk \<Rightarrow> int \<Rightarrow> error + StoredEmbeddings" where
  "loadEmbeddings_try d now =
     (case readFile d of Inl e \<Rightarrow> Inl e | Inr data \<Rightarrow>
     (case JSON_parse data of Inl e \<Rightarrow> Inl e | Inr parsed \<Rightarrow>
     (case parsed of
        JNull \<Rightarrow> Inl TypeError
      | JObject v es l \<Rightarrow>
          (if v \<noteq> Some EMBEDDING_VERSION then Inr (createEmptyEmbeddings now)
           else (case es of
                   None \<Rightarrow> Inl TypeError
                 | Some records \<Rightarrow>
                     Inr \<lparr> version = EMBEDDING_VERSION, embeddings = records, lastUpdated = l \<rparr>)))))"

definition loadEmbeddings :: "disk \<Rightarrow> int \<Rightarrow> error + StoredEmbeddings" where
  "loadEmbeddings d now =
     (case loadEmbeddings_try d now of
        Inr loaded \<Rightarrow> Inr loaded
      | Inl e \<Rightarrow>
          (if e = ENOENT then Inr (createEmptyEmbeddings now)
           else Inr (createEmptyEmbeddings now)))"


definition upsert :: "EmbeddingData \<Rightarrow> EmbeddingData list \<Rightarrow> EmbeddingData list" where
  "upsert embedding records =
     (let removed = filter (\<lambda>e. ed_id e \<noteq> ed_id embedding) records;
          pushed = removed @ [embedding];
          sorted = sort_key (\<lambda>e. - ed_createdAt e) pushed
      in if length sorted > MAX_EMBEDDINGS then take MAX_EMBEDDINGS sorted else sorted)"



section \<open>Deduplicator\<close>

text \<open>
  \<^verbatim>\<open>combined\<close> is a \<^verbatim>\<open>Map<string, SimilarItem>\<close>: a list of entries in insertion order, of
  which \<^verbatim>\<open>set\<close> replaces the value of a present key in place and appends an absent one.
\<close>

type_synonym item_map = "(string \<times> SimilarItem) list"

definition map_get :: "item_map \<Rightarrow> string \<Rightarrow> SimilarItem option" where
  "map_get m k = map_of m k"

fun map_set :: "string \<Rightarrow> SimilarItem \<Rightarrow> item_map \<Rightarrow> item_map" where
  "map_set k v [] = [(k, v)]"
| "map_set k v (p # ps) = (if fst p = k then (k, v) # ps else p # map_set k v ps)"

definition map_values :: "item_map \<Rightarrow> SimilarItem list" where
  "map_values m = map snd m"

fun type_name :: "item_type \<Rightarrow> string" where
  "type_name PR = ''pr''"
| "type_name Issue = ''issue''"

text \<open>The key \<^verbatim>\<open>`${item.type}:${item.number}`\<close>, of a lexical and of a vector result.\<close>

definition keyOf :: "SimilarItem \<Rightarrow> string" where
  "keyOf item = type_name (si_type item) @ '':'' @ show_number (si_number item)"

definition vkeyOf :: "ScoredEmbedding \<Rightarrow> string" where
  "vkeyOf item = type_name (ed_type item) @ '':'' @ show_number (ed_number item)"

definition createItemUrl :: "item_type \<Rightarrow> int \<Rightarrow> string" where
  "createItemUrl t n = (let baseUrl = ''https://github.com'' in baseUrl @ ''/pull/'' @ show_number n)"

text \<open>The object literal that the first loop stores for a vector result.\<close>

definition fromVector :: "ScoredEmbedding \<Rightarrow> SimilarItem" where
  "fromVector item =
     \<lparr> si_type = ed_type item, si_number = ed_number item, si_title = ed_title item,
       si_similarity = ed_similarity item, si_status = Open,
       si_url = createItemUrl (ed_type item) (ed_number item) \<rparr>"

text \<open>The three assignments to \<^verbatim>\<open>existing\<close> of the second loop.\<close>

definition mergeInto :: "SimilarItem \<Rightarrow> SimilarItem \<Rightarrow> SimilarItem" where
  "mergeInto existing item =
     (let combinedSimilarity = si_similarity existing * (7/10) + si_similarity item * (3/10)
      in existing\<lparr> si_similarity := max (si_similarity existing) combinedSimilarity,
                    si_status := si_status item, si_url := si_url item \<rparr>)"

definition vectorStep :: "int \<Rightarrow> item_map \<Rightarrow> ScoredEmbedding \<Rightarrow> item_map" where
  "vectorStep currentPRNumber combined item =
     (if ed_number item = currentPRNumber \<and> ed_type item = PR then combined
      else map_set (vkeyOf item) (fromVector item) combined)"

definition textStep :: "int \<Rightarrow> item_map \<Rightarrow> SimilarItem \<Rightarrow> item_map" where
  "textStep currentPRNumber combined item =
     (if si_number item = currentPRNumber \<and> si_type item = PR then combined
      else let key = keyOf item in
        (case map_get combined key of
           Some existing \<Rightarrow> map_set key (mergeInto existing item) combined
         | None \<Rightarrow> map_set key item combined))"

definition sortBySimilarityDesc :: "SimilarItem list \<Rightarrow> SimilarItem list" where
  "sortBySimilarityDesc xs = sort_key (\<lambda>i. - si_similarity i) xs"

definition combineAndRankSimilarItems ::
  "ScoredEmbedding list \<Rightarrow> SimilarItem list \<Rightarrow> int \<Rightarrow> SimilarItem list" where
  "combineAndRankSimilarItems vectorSimilar textSimilar currentPRNumber =
     (let combined0 = foldl (vectorStep currentPRNumber) [] vectorSimilar;
          combined = foldl (textStep currentPRNumber) combined0 textSimilar
      in sortBySimilarityDesc (map_values combined))"

definition verdict :: "real \<Rightarrow> SimilarItem list \<Rightarrow> DeduplicationResult" where
  "verdict similarityThreshold items =
     \<lparr> similarItems = items,
       isDuplicate = (case items of [] \<Rightarrow> False | first # _ \<Rightarrow> si_similarity first \<ge> 9/10),
       duplicateThreshold = similarityThreshold \<rparr>"

text \<open>
  What the awaited calls of one run of \<^verbatim>\<open>findDuplicates\<close> return, in the order of the
  calls: the embedding request, the two calls to the store, the lexical search of the
  \<^verbatim>\<open>try\<close> block and the lexical search of the \<^verbatim>\<open>catch\<close> block.
\<close>

record collaborators =
  openai_generateEmbedding :: "error + real list"
  storage_addEmbedding :: "error + unit"
  storage_findSimilarEmbeddings :: "error + ScoredEmbedding list"
  github_findSimilarPRsAndIssues :: "error + SimilarItem list"
  github_findSimilarPRsAndIssues_fallback :: "error + SimilarItem list"

text \<open>The \<^verbatim>\<open>try\<close> block.\<close>

definition mainPath :: "real \<Rightarrow> collaborators \<Rightarrow> PRContext \<Rightarrow> error + DeduplicationResult" where
  "mainPath similarityThreshold io context =
     (case openai_generateEmbedding io of Inl e \<Rightarrow> Inl e | Inr embedding \<Rightarrow>
     (case storage_addEmbedding io of Inl e \<Rightarrow> Inl e | Inr _ \<Rightarrow>
     (case storage_findSimilarEmbeddings io of Inl e \<Rightarrow> Inl e | Inr vectorSimilar \<Rightarrow>
     (case github_findSimilarPRsAndIssues io of Inl e \<Rightarrow> Inl e | Inr textSimilar \<Rightarrow>
        (let combinedSimilar =
               combineAndRankSimilarItems vectorSimilar textSimilar (ctx_number context);
             items = take 10 (filter (\<lambda>item. si_similarity item \<ge> similarityThreshold)
                                combinedSimilar)
         in Inr (verdict similarityThreshold items))))))"

text \<open>The inner \<^verbatim>\<open>try\<close> block of the \<^verbatim>\<open>catch\<close> clause.\<close>

definition fallbackPath :: "real \<Rightarrow> collaborators \<Rightarrow> error + DeduplicationResult" where
  "fallbackPath similarityThreshold io =
     (case github_findSimilarPRsAndIssues_fallback io of Inl e \<Rightarrow> Inl e | Inr textSimilar \<Rightarrow>
        (let items = take 5 (filter (\<lambda>item. si_similarity item \<ge> similarityThreshold) textSimilar)
         in Inr (verdict similarityThreshold items)))"

definition findDuplicates :: "real \<Rightarrow> collaborators \<Rightarrow> PRContext \<Rightarrow> DeduplicationResult" where
  "findDuplicates similarityThreshold io context =
     (case mainPath similarityThreshold io context of
        Inr result \<Rightarrow> result
      | Inl _ \<Rightarrow>
          (case fallbackPath similarityThreshold io of
             Inr result \<Rightarrow> result
           | Inl _ \<Rightarrow> \<lparr> similarItems = [], isDuplicate = False,
                        duplicateThreshold = similarityThreshold \<rparr>))"

subsection \<open>Properties of the merged candidates\<close>

text \<open>
  The entries of a well-formed \<^verbatim>\<open>combined\<close> map have pairwise different keys, and each
  value is stored under its own key.
\<close>

definition keyed :: "item_map \<Rightarrow> bool" where
  "keyed m \<longleftrightarrow> distinct (map fst m) \<and> (\<forall>(k, i) \<in> set m. keyOf i = k)"

text \<open>The identity of the pull request under analysis: kind \<^verbatim>\<open>'pr'\<close> and its number.\<close>

definition isCurrentPR :: "int \<Rightarrow> SimilarItem \<Rightarrow> bool" where
  "isCurrentPR cur i \<longleftrightarrow> si_number i = cur \<and> si_type i = PR"

definition self_free :: "int \<Rightarrow> item_map \<Rightarrow> bool" where
  "self_free cur m \<longleftrightarrow> (\<forall>p \<in> set m. \<not> isCurrentPR cur (snd p))"

text \<open>The map after both loops of \<^verbatim>\<open>combineAndRankSimilarItems\<close>.\<close>

definition merged :: "ScoredEmbedding list \<Rightarrow> SimilarItem list \<Rightarrow> int \<Rightarrow> item_map" where
  "merged vs ts cur = foldl (textStep cur) (foldl (vectorStep cur) [] vs) ts"

definition descending :: "SimilarItem list \<Rightarrow> bool" where
  "descending xs \<longleftrightarrow> sorted_wrt (\<lambda>a b. si_similarity a \<ge> si_similarity b) xs"

section \<open>GitHubAdapter (src/adapters/github.ts)\<close>

text \<open>
  What the workflow run and the GitHub API provide: the number of the pull request in the
  event payload (\<open>None\<close> when \<^verbatim>\<open>github.context.payload.pull_request\<close> is undefined), and
  the title and body that the requests of \<^verbatim>\<open>getPRContext\<close> fetch, or the failure of one
  of these requests.
\<close>

record github_env =
  payload_pull_request_number :: "int option"
  pulls_get :: "error + string \<times> string option"

text \<open>An item of a search result, with the fields that the adapter reads.\<close>

datatype api_state = StateOpen | StateClosed

record search_hit =
  hit_number :: int
  hit_title :: string
  hit_state :: api_state
  hit_merged_at :: "string option"
  hit_html_url :: string

text \<open>
  The outcomes of the two requests of one call of \<^verbatim>\<open>findSimilarPRsAndIssues\<close>: the search
  restricted by \<^verbatim>\<open>is:pr\<close> and the one restricted by \<^verbatim>\<open>is:issue\<close>.
\<close>

record search_outcomes =
  search_prs :: "error + search_hit list"
  search_issues :: "error + search_hit list"

definition getPRContext :: "github_env \<Rightarrow> error + PRContext" where
  "getPRContext env =
     (case payload_pull_request_number env of
        None \<Rightarrow> Inl GitHubError
      | Some prNumber \<Rightarrow>
          (if prNumber = 0 then Inl GitHubError
           else (case pulls_get env of
                   Inl e \<Rightarrow> Inl e
                 | Inr (title, body) \<Rightarrow>
                     Inr \<lparr> ctx_number = prNumber, ctx_title = title, ctx_body = body \<rparr>)))"

text \<open>\<^verbatim>\<open>s.split(/\s+/)\<close>.\<close>

function splitWhiteSpace :: "string \<Rightarrow> string list" where
  "splitWhiteSpace [] = [[]]"
| "splitWhiteSpace (c # cs) =
     (if isWhiteSpace c then [] # splitWhiteSpace (dropWhile isWhiteSpace cs)
      else (case splitWhiteSpace cs of w # ws \<Rightarrow> (c # w) # ws | [] \<Rightarrow> [[c]]))"
  by pat_completeness auto
termination
  by (relation "measure length") (auto simp: length_dropWhile_le less_Suc_eq_le)

definition calculateSimilarity :: "string \<Rightarrow> string \<Rightarrow> real" where
  "calculateSimilarity text1 text2 =
     (let words1 = newSet (splitWhiteSpace (toLowerCase text1));
          words2 = newSet (splitWhiteSpace (toLowerCase text2));
          intersection = newSet (filter (\<lambda>x. x \<in> set words2) words1);
          union = newSet (words1 @ words2)
      in if length union > 0 then real (length intersection) / real (length union) else 0)"

definition prItem :: "string \<Rightarrow> search_hit \<Rightarrow> SimilarItem" where
  "prItem title item =
     \<lparr> si_type = PR, si_number = hit_number item, si_title = hit_title item,
       si_similarity = calculateSimilarity title (hit_title item),
       si_status = (if hit_state item = StateOpen then Open
                    else (case hit_merged_at item of
                            Some t \<Rightarrow> if t \<noteq> [] then Merged else Closed
                          | None \<Rightarrow> Closed)),
       si_url = hit_html_url item \<rparr>"

definition issueItem :: "string \<Rightarrow> search_hit \<Rightarrow> SimilarItem" where
  "issueItem title item =
     \<lparr> si_type = Issue, si_number = hit_number item, si_title = hit_title item,
       si_similarity = calculateSimilarity title (hit_title item),
       si_status = (if hit_state item = StateOpen then Open else Closed),
       si_url = hit_html_url item \<rparr>"

text \<open>
  \<^verbatim>\<open>findSimilarPRsAndIssues\<close>. The query built by \<^verbatim>\<open>createSearchQuery\<close> goes to the API
  only; what the API answers is \<open>search\<close>. A request that fails is caught and gives the empty
  list, so the method never rejects.
\<close>

definition findSimilarPRsAndIssues ::
  "github_env \<Rightarrow> string \<Rightarrow> string option \<Rightarrow> search_outcomes \<Rightarrow> error + SimilarItem list" where
  "findSimilarPRsAndIssues env title body search =
     (case search_prs search of
        Inl e \<Rightarrow> Inr []
      | Inr prResults \<Rightarrow>
          (let similar =
                 map (prItem title)
                   (filter (\<lambda>item. Some (hit_number item) \<noteq> payload_pull_request_number env)
                      prResults)
           in (case search_issues search of
                 Inl e \<Rightarrow> Inr []
               | Inr issueResults \<Rightarrow>
                   Inr (sortBySimilarityDesc (similar @ map (issueItem title) issueResults)))))"

section \<open>The deduplication of a run (src/index.ts)\<close>

text \<open>
  What the requests of one run of the deduplicator answer: the embedding request, the two
  calls to the store, and the searches behind the lexical search of the \<^verbatim>\<open>try\<close> block
  and of the \<^verbatim>\<open>catch\<close> block.
\<close>

record answers =
  embeddingRequest :: "error + real list"
  storeWrite :: "error + unit"
  vectorSearch :: "error + ScoredEmbedding list"
  lexicalSearch :: search_outcomes
  lexicalSearchAgain :: search_outcomes

text \<open>
  \<^verbatim>\<open>new Deduplicator(openaiAdapter, githubAdapter, storageAdapter, threshold)\<close>: the lexical
  search of the deduplicator is the method of the adapter.
\<close>

definition wired :: "github_env \<Rightarrow> answers \<Rightarrow> PRContext \<Rightarrow> collaborators" where
  "wired env a context =
     \<lparr> openai_generateEmbedding = embeddingRequest a,
       storage_addEmbedding = storeWrite a,
       storage_findSimilarEmbeddings = vectorSearch a,
       github_findSimilarPRsAndIssues =
         findSimilarPRsAndIssues env (ctx_title context) (ctx_body context) (lexicalSearch a),
       github_findSimilarPRsAndIssues_fallback =
         findSimilarPRsAndIssues env (ctx_title context) (ctx_body context) (lexicalSearchAgain a) \<rparr>"

text \<open>
  \<^verbatim>\<open>prContext = await githubAdapter.getPRContext()\<close>, then, for a pull request that the
  configuration does not ignore, \<^verbatim>\<open>deduplicator.findDuplicates(prContext)\<close>.
\<close>

definition deduplication :: "real \<Rightarrow> github_env \<Rightarrow> answers \<Rightarrow> error + DeduplicationResult" where
  "deduplication similarityThreshold env a =
     (case getPRContext env of
        Inl e \<Rightarrow> Inl e
      | Inr prContext \<Rightarrow> Inr (findDuplicates similarityThreshold (wired env a prContext) prContext))"

section \<open>Concrete inputs\<close>

text \<open>The pull request 123 of \<^verbatim>\<open>test/dedup.test.ts\<close> and candidates for it.\<close>

definition own123 :: SimilarItem where
  "own123 = \<lparr> si_type = PR, si_number = 123, si_title = ''Add rate limiting to API endpoints'',
              si_similarity = 95/100, si_status = Open,
              si_url = ''https://github.com/repo/pull/123'' \<rparr>"

definition context123 :: PRContext where
  "context123 = \<lparr> ctx_number = 123, ctx_title = ''Add rate limiting to API endpoints'',
                  ctx_body = None \<rparr>"

definition lexicalOnly :: "SimilarItem list \<Rightarrow> collaborators" where
  "lexicalOnly textSimilar =
     \<lparr> openai_generateEmbedding = Inl OpenAIError,
       storage_addEmbedding = Inr (),
       storage_findSimilarEmbeddings = Inr [],
       github_findSimilarPRsAndIssues = Inr textSimilar,
       github_findSimilarPRsAndIssues_fallback = Inr textSimilar \<rparr>"

definition text120 :: SimilarItem where
  "text120 = \<lparr> si_type = PR, si_number = 120, si_title = ''API rate limiting'',
               si_similarity = 75/100, si_status = Merged,
               si_url = ''https://github.com/repo/pull/120'' \<rparr>"

definition vector120 :: ScoredEmbedding where
  "vector120 = \<lparr> ed_id = ''pr:120'', ed_type = PR, ed_number = 120, ed_title = ''API rate limiting'',
                 ed_body = ''Rate limiting for APIs'', ed_embedding = [11/100, 21/100],
                 ed_createdAt = 1672531200000, ed_similarity = 85/100 \<rparr>"

definition pr120 :: SimilarItem where
  "pr120 = \<lparr> si_type = PR, si_number = 120, si_title = ''Add rate limiting middleware'',
             si_similarity = 95/100, si_status = Open,
             si_url = ''https://github.com/repo/pull/120'' \<rparr>"

definition issue7 :: SimilarItem where
  "issue7 = \<lparr> si_type = Issue, si_number = 7, si_title = ''Rate limiting'',
              si_similarity = 85/100, si_status = Open,
              si_url = ''https://github.com/repo/issues/7'' \<rparr>"

text \<open>
  A hunk that removes the line \<^verbatim>\<open>-- old comment\<close>, the end-to-end diff of
  \<^verbatim>\<open>test/diff-parser.test.ts\<close>, and a hunk that replaces a line.
\<close>

definition removedComment :: string where
  "removedComment = joinLines [''@@ -1,2 +1,1 @@'', ''--- old comment'', '' kept'']"

definition endToEnd :: string where
  "endToEnd = joinLines [''@@ -1,3 +1,4 @@'', '' line1'', ''+added line'', '' line3'']"

definition replacedLine :: string where
  "replacedLine = joinLines [''@@ -10,3 +10,3 @@'', '' a'', ''-b'', ''+c'', '' d'']"

definition replacedLineChunk :: DiffChunk where
  "replacedLineChunk =
     \<lparr> oldStart = 10, oldLines = 3, newStart = 10, newLines = 3,
       lines = [\<lparr> lineType = Context, content = ''a'', lineNumber = 10 \<rparr>,
                \<lparr> lineType = Removed, content = ''b'', lineNumber = 11 \<rparr>,
                \<lparr> lineType = Added, content = ''c'', lineNumber = 11 \<rparr>,
                \<lparr> lineType = Context, content = ''d'', lineNumber = 12 \<rparr>] \<rparr>"

definition openChunk :: DiffChunk where
  "openChunk =
     \<lparr> oldStart = 1, oldLines = 3, newStart = 1, newLines = 4,
       lines = [\<lparr> lineType = Context, content = ''line1'', lineNumber = 1 \<rparr>] \<rparr>"

text \<open>A stored collection of two records, and a new embedding for the second of them.\<close>

definition record1 :: EmbeddingData where
  "record1 = \<lparr> ed_id = ''pr:1'', ed_type = PR, ed_number = 1, ed_title = ''First'',
               ed_body = [], ed_embedding = [1, 0], ed_createdAt = 200 \<rparr>"

definition record2 :: EmbeddingData where
  "record2 = \<lparr> ed_id = ''pr:2'', ed_type = PR, ed_number = 2, ed_title = ''Second'',
               ed_body = [], ed_embedding = [0, 1], ed_createdAt = 100 \<rparr>"



definition oldDisk :: disk where
  "oldDisk = File (Json (JObject (Some ''0.9'') (Some [record1, record2]) 250))"

text \<open>A run on pull request 123 in which the store and both searches return it.\<close>

definition env123 :: github_env where
  "env123 = \<lparr> payload_pull_request_number = Some 123,
               pulls_get = Inr (''Add rate limiting'', None) \<rparr>"

definition prContext123 :: PRContext where
  "prContext123 = \<lparr> ctx_number = 123, ctx_title = ''Add rate limiting'', ctx_body = None \<rparr>"

definition vector123 :: ScoredEmbedding where
  "vector123 = \<lparr> ed_id = ''pr:123'', ed_type = PR, ed_number = 123, ed_title = ''Add rate limiting'',
                 ed_body = [], ed_embedding = [1, 0], ed_createdAt = 1672531200000,
                 ed_similarity = 1 \<rparr>"

definition hit :: "int \<Rightarrow> string \<Rightarrow> search_hit" where
  "hit n title = \<lparr> hit_number = n, hit_title = title, hit_state = StateOpen,
                   hit_merged_at = None, hit_html_url = [] \<rparr>"

definition searched :: search_outcomes where
  "searched = \<lparr> search_prs = Inr [hit 123 ''Add rate limiting'', hit 119 ''rate limiting'',
                                    hit 120 ''Add Rate Limiting''],
                 search_issues = Inr [hit 7 ''Rate limiting for the API''] \<rparr>"

definition answersMain :: answers where
  "answersMain = \<lparr> embeddingRequest = Inr [1, 0], storeWrite = Inr (),
                    vectorSearch = Inr [vector123], lexicalSearch = searched,
                    lexicalSearchAgain = searched \<rparr>"

definition answersFallback :: answers where
  "answersFallback = \<lparr> embeddingRequest = Inl OpenAIError, storeWrite = Inr (),
                        vectorSearch = Inr [vector123], lexicalSearch = searched,
                        lexicalSearchAgain = searched \<rparr>"



section \<open>Deduplicator: merging and ranking\<close>

lemma map_of_map_set: "map_of (map_set k v m) k' = (if k' = k then Some v else map_of m k')"
  by (induction m) auto

lemma fst_set_map_set: "fst ` set (map_set k v m) = insert k (fst ` set m)"
  by (induction m) auto

lemma distinct_map_set: "distinct (map fst m) \<Longrightarrow> distinct (map fst (map_set k v m))"
proof (induction m)
  case Nil
  then show ?case by simp
next
  case (Cons p ps)
  then show ?case
    using fst_set_map_set [of k v ps] by (auto simp: image_iff)
qed

lemma keyed_Nil: "keyed []"
  by (simp add: keyed_def)

lemma set_map_set: "set (map_set k v m) \<subseteq> insert (k, v) (set m)"
  by (induction m) auto

lemma keyed_map_set: "keyed m \<Longrightarrow> keyOf v = k \<Longrightarrow> keyed (map_set k v m)"
  unfolding keyed_def using set_map_set [of k v m] distinct_map_set [of m k v] by auto

lemma keyed_lookup: "keyed m \<Longrightarrow> map_of m k = Some i \<Longrightarrow> keyOf i = k"
  unfolding keyed_def by (auto dest: map_of_SomeD)

lemma keyOf_fromVector: "keyOf (fromVector v) = vkeyOf v"
  by (simp add: keyOf_def vkeyOf_def fromVector_def)

lemma keyOf_mergeInto: "keyOf (mergeInto ex t) = keyOf ex"
  by (simp add: keyOf_def mergeInto_def Let_def)

lemma keyed_vectorStep: "keyed m \<Longrightarrow> keyed (vectorStep cur m v)"
  by (simp add: vectorStep_def keyed_map_set keyOf_fromVector)

lemma keyed_textStep: "keyed m \<Longrightarrow> keyed (textStep cur m t)"
  by (auto simp: textStep_def map_get_def Let_def keyOf_mergeInto
      intro!: keyed_map_set dest: keyed_lookup split: option.splits)

lemma keyed_foldl_vectorStep: "keyed m \<Longrightarrow> keyed (foldl (vectorStep cur) m vs)"
  by (induction vs arbitrary: m) (simp_all add: keyed_vectorStep)

lemma keyed_foldl_textStep: "keyed m \<Longrightarrow> keyed (foldl (textStep cur) m ts)"
  by (induction ts arbitrary: m) (simp_all add: keyed_textStep)

subsection \<open>Keys determine the kind and the number\<close>

lemma digit_of_char: "n < 10 \<Longrightarrow> (of_char (char_of (48 + n)) :: nat) = 48 + n"
  by simp

lemma parseInt_snoc: "parseInt (ds @ [d]) = parseInt ds * 10 + (of_char d - 48)"
  by (simp add: parseInt_def)

lemma parseInt_show_nat: "parseInt (show_nat n) = n"
proof (induction n rule: show_nat.induct)
  case (1 n)
  show ?case
  proof (cases "n < 10")
    case True
    then have "show_nat n = [char_of (48 + n)]" by (subst show_nat.simps) simp
    then show ?thesis using True by (simp add: parseInt_def)
  next
    case False
    then have s: "show_nat n = show_nat (n div 10) @ [char_of (48 + n mod 10)]"
      by (subst show_nat.simps) simp
    have "(of_char (char_of (48 + n mod 10)) :: nat) = 48 + n mod 10"
      by (rule digit_of_char) simp
    then show ?thesis using 1 [OF False] by (simp only: s parseInt_snoc) simp
  qed
qed

lemma show_nat_inj: "show_nat m = show_nat n \<Longrightarrow> m = n"
  using parseInt_show_nat [of m] parseInt_show_nat [of n] by simp

lemma show_nat_first: "\<exists>c cs. show_nat n = c # cs \<and> c \<noteq> CHR ''-''"
proof (induction n rule: show_nat.induct)
  case (1 n)
  show ?case
  proof (cases "n < 10")
    case True
    then have s: "show_nat n = [char_of (48 + n)]" by (subst show_nat.simps) simp
    have o: "(of_char (char_of (48 + n)) :: nat) = 48 + n" using True by (rule digit_of_char)
    have "char_of (48 + n) \<noteq> CHR ''-''"
    proof
      assume "char_of (48 + n) = CHR ''-''"
      then have "(of_char (char_of (48 + n)) :: nat) = of_char CHR ''-''" by (rule arg_cong)
      then have "48 + n = (45 :: nat)" unfolding o by simp
      then show False by simp
    qed
    with s show ?thesis by simp
  next
    case False
    then have s: "show_nat n = show_nat (n div 10) @ [char_of (48 + n mod 10)]"
      by (subst show_nat.simps) simp
    from 1 [OF False] obtain c cs where "show_nat (n div 10) = c # cs" "c \<noteq> CHR ''-''" by blast
    with s show ?thesis by simp
  qed
qed

lemma show_number_inj: "show_number i = show_number j \<Longrightarrow> i = j"
proof -
  assume e: "show_number i = show_number j"
  obtain c cs where c: "show_nat (nat i) = c # cs" "c \<noteq> CHR ''-''"
    using show_nat_first by blast
  obtain d ds where d: "show_nat (nat j) = d # ds" "d \<noteq> CHR ''-''"
    using show_nat_first by blast
  show ?thesis
  proof (cases "i < 0")
    case True
    show ?thesis
    proof (cases "j < 0")
      case True
      with \<open>i < 0\<close> e have "show_nat (nat (- i)) = show_nat (nat (- j))"
        by (simp add: show_number_def)
      then have "nat (- i) = nat (- j)" by (rule show_nat_inj)
      with True \<open>i < 0\<close> show ?thesis by simp
    next
      case False
      with True e d show ?thesis by (simp add: show_number_def)
    qed
  next
    case False
    show ?thesis
    proof (cases "j < 0")
      case True
      with False e c show ?thesis by (simp add: show_number_def)
    next
      case jn: False
      with False e have "show_nat (nat i) = show_nat (nat j)" by (simp add: show_number_def)
      then have "nat i = nat j" by (rule show_nat_inj)
      with False jn show ?thesis by simp
    qed
  qed
qed

lemma key_inj:
  "type_name t1 @ '':'' @ show_number n1 = type_name t2 @ '':'' @ show_number n2
   \<Longrightarrow> t1 = t2 \<and> n1 = n2"
  by (cases t1; cases t2) (auto dest: show_number_inj)

lemma same_key_same_identity:
  "vkeyOf v = keyOf t \<Longrightarrow> ed_type v = si_type t \<and> ed_number v = si_number t"
  unfolding vkeyOf_def keyOf_def by (rule key_inj)

subsection \<open>The two merge loops\<close>

lemma vectorStep_other: "vkeyOf v \<noteq> k \<Longrightarrow> map_of (vectorStep cur m v) k = map_of m k"
  by (auto simp: vectorStep_def vkeyOf_def map_of_map_set)

lemma vectorStep_same:
  "\<not> (ed_number v = cur \<and> ed_type v = PR) \<Longrightarrow> map_of (vectorStep cur m v) (vkeyOf v) = Some (fromVector v)"
  by (auto simp: vectorStep_def vkeyOf_def map_of_map_set)

lemma foldl_vectorStep_absent:
  "k \<notin> vkeyOf ` set vs \<Longrightarrow> map_of (foldl (vectorStep cur) m vs) k = map_of m k"
  by (induction vs arbitrary: m) (auto simp: vectorStep_other)

lemma foldl_vectorStep_present:
  "distinct (map vkeyOf vs) \<Longrightarrow> v \<in> set vs \<Longrightarrow>
   \<not> (ed_number v = cur \<and> ed_type v = PR) \<Longrightarrow>
   map_of (foldl (vectorStep cur) m vs) (vkeyOf v) = Some (fromVector v)"
proof (induction vs arbitrary: m)
  case Nil
  then show ?case by simp
next
  case (Cons a vs)
  show ?case
  proof (cases "a = v")
    case True
    with Cons.prems have "vkeyOf v \<notin> vkeyOf ` set vs" by auto
    then show ?thesis
      using True Cons.prems(3) by (simp add: foldl_vectorStep_absent vectorStep_same)
  next
    case False
    with Cons.prems have "v \<in> set vs" "distinct (map vkeyOf vs)" by auto
    then show ?thesis using Cons.IH Cons.prems(3) by simp
  qed
qed

lemma textStep_other: "keyOf t \<noteq> k \<Longrightarrow> map_of (textStep cur m t) k = map_of m k"
  by (auto simp: textStep_def keyOf_def map_get_def map_of_map_set Let_def split: option.splits)

lemma textStep_same:
  "\<not> (si_number t = cur \<and> si_type t = PR) \<Longrightarrow>
   map_of (textStep cur m t) (keyOf t) =
     Some (case map_of m (keyOf t) of Some existing \<Rightarrow> mergeInto existing t | None \<Rightarrow> t)"
  by (auto simp: textStep_def keyOf_def map_get_def map_of_map_set Let_def split: option.splits)

lemma foldl_textStep_absent:
  "k \<notin> keyOf ` set ts \<Longrightarrow> map_of (foldl (textStep cur) m ts) k = map_of m k"
  by (induction ts arbitrary: m) (auto simp: textStep_other)

lemma foldl_textStep_present:
  "distinct (map keyOf ts) \<Longrightarrow> t \<in> set ts \<Longrightarrow>
   \<not> (si_number t = cur \<and> si_type t = PR) \<Longrightarrow>
   map_of (foldl (textStep cur) m ts) (keyOf t) =
     Some (case map_of m (keyOf t) of Some existing \<Rightarrow> mergeInto existing t | None \<Rightarrow> t)"
proof (induction ts arbitrary: m)
  case Nil
  then show ?case by simp
next
  case (Cons a ts)
  show ?case
  proof (cases "a = t")
    case True
    with Cons.prems have "keyOf t \<notin> keyOf ` set ts" by auto
    then show ?thesis
      using True Cons.prems(3) by (simp add: foldl_textStep_absent textStep_same)
  next
    case False
    with Cons.prems have "t \<in> set ts" "distinct (map keyOf ts)" "keyOf a \<noteq> keyOf t" by auto
    then show ?thesis using Cons.IH [of "textStep cur m a"] Cons.prems(3)
      by (simp add: textStep_other)
  qed
qed

lemma self_free_map_set:
  "self_free cur m \<Longrightarrow> \<not> isCurrentPR cur v \<Longrightarrow> self_free cur (map_set k v m)"
  unfolding self_free_def using set_map_set [of k v m] by auto

lemma self_free_lookup: "self_free cur m \<Longrightarrow> map_of m k = Some i \<Longrightarrow> \<not> isCurrentPR cur i"
  unfolding self_free_def by (auto dest!: map_of_SomeD)

lemma self_free_vectorStep: "self_free cur m \<Longrightarrow> self_free cur (vectorStep cur m v)"
  by (auto simp: vectorStep_def fromVector_def isCurrentPR_def intro!: self_free_map_set)

lemma self_free_textStep: "self_free cur m \<Longrightarrow> self_free cur (textStep cur m t)"
proof (cases "map_of m (keyOf t)")
  case None
  assume "self_free cur m"
  with None show ?thesis
    by (auto simp: textStep_def map_get_def isCurrentPR_def intro!: self_free_map_set)
next
  case (Some ex)
  assume m: "self_free cur m"
  with Some have "\<not> isCurrentPR cur ex" by (rule self_free_lookup [rotated])
  then have "\<not> isCurrentPR cur (mergeInto ex t)"
    by (simp add: isCurrentPR_def mergeInto_def Let_def)
  with m Some show ?thesis
    by (auto simp: textStep_def map_get_def intro!: self_free_map_set)
qed

lemma self_free_foldl_vectorStep:
  "self_free cur m \<Longrightarrow> self_free cur (foldl (vectorStep cur) m vs)"
  by (induction vs arbitrary: m) (simp_all add: self_free_vectorStep)

lemma self_free_foldl_textStep:
  "self_free cur m \<Longrightarrow> self_free cur (foldl (textStep cur) m ts)"
  by (induction ts arbitrary: m) (simp_all add: self_free_textStep)

lemma set_combineAndRank:
  "set (combineAndRankSimilarItems vs ts cur) = snd ` set (merged vs ts cur)"
  by (simp add: combineAndRankSimilarItems_def sortBySimilarityDesc_def map_values_def merged_def)

lemma keyed_merged: "keyed (merged vs ts cur)"
  by (simp add: merged_def keyed_foldl_textStep keyed_foldl_vectorStep keyed_Nil)

lemma combineAndRank_member:
  "i \<in> set (combineAndRankSimilarItems vs ts cur) \<longleftrightarrow> map_of (merged vs ts cur) (keyOf i) = Some i"
proof
  assume "i \<in> set (combineAndRankSimilarItems vs ts cur)"
  then obtain k where k: "(k, i) \<in> set (merged vs ts cur)"
    by (auto simp: set_combineAndRank)
  with keyed_merged [of vs ts cur] have "keyOf i = k" by (auto simp: keyed_def)
  with k keyed_merged [of vs ts cur] show "map_of (merged vs ts cur) (keyOf i) = Some i"
    by (simp add: keyed_def)
next
  assume "map_of (merged vs ts cur) (keyOf i) = Some i"
  then have "(keyOf i, i) \<in> set (merged vs ts cur)" by (rule map_of_SomeD)
  then show "i \<in> set (combineAndRankSimilarItems vs ts cur)"
    by (force simp: set_combineAndRank)
qed

lemma combineAndRank_excludes_self:
  "i \<in> set (combineAndRankSimilarItems vs ts cur) \<Longrightarrow> \<not> isCurrentPR cur i"
proof -
  assume "i \<in> set (combineAndRankSimilarItems vs ts cur)"
  then have "map_of (merged vs ts cur) (keyOf i) = Some i"
    by (simp add: combineAndRank_member)
  moreover have "self_free cur (merged vs ts cur)"
    unfolding merged_def
    by (intro self_free_foldl_textStep self_free_foldl_vectorStep) (simp add: self_free_def)
  ultimately show ?thesis by (rule self_free_lookup [rotated])
qed

text \<open>
  Claim C3. Let the vector results have pairwise different keys and the lexical results
  too, and let a vector result \<open>v\<close> and a lexical result \<open>t\<close> carry the same key, which is
  not that of the pull request under analysis. Then the merged list holds one candidate
  under that key; its similarity is the maximum of the vector similarity and of
  \<open>0.7\<close> times the vector similarity plus \<open>0.3\<close> times the lexical one, hence at least the
  vector similarity.
\<close>

theorem merged_similarity:
  assumes "distinct (map vkeyOf vectorSimilar)" and "distinct (map keyOf textSimilar)"
    and "v \<in> set vectorSimilar" and "t \<in> set textSimilar"
    and "vkeyOf v = keyOf t" and "\<not> isCurrentPR currentPRNumber t"
  shows "mergeInto (fromVector v) t \<in> set (combineAndRankSimilarItems vectorSimilar textSimilar currentPRNumber)
    \<and> (\<forall>m \<in> set (combineAndRankSimilarItems vectorSimilar textSimilar currentPRNumber).
          keyOf m = keyOf t \<longrightarrow>
            si_similarity m = max (ed_similarity v) (7/10 * ed_similarity v + 3/10 * si_similarity t)
            \<and> si_similarity m \<ge> ed_similarity v)"
proof -
  let ?M0 = "foldl (vectorStep currentPRNumber) [] vectorSimilar"
  have other: "\<not> (ed_number v = currentPRNumber \<and> ed_type v = PR)"
    using same_key_same_identity [OF assms(5)] assms(6) by (simp add: isCurrentPR_def)
  have m0: "map_of ?M0 (keyOf t) = Some (fromVector v)"
    using foldl_vectorStep_present [OF assms(1) assms(3) other, of "[]"] assms(5)
    by simp
  have look: "map_of (merged vectorSimilar textSimilar currentPRNumber) (keyOf t)
      = Some (mergeInto (fromVector v) t)"
    unfolding merged_def
    using foldl_textStep_present [OF assms(2) assms(4), of currentPRNumber ?M0] m0 assms(6)
    by (simp add: isCurrentPR_def)
  have key: "keyOf (mergeInto (fromVector v) t) = keyOf t"
    using assms(5) by (simp add: keyOf_mergeInto keyOf_fromVector)
  have sim: "si_similarity (mergeInto (fromVector v) t)
      = max (ed_similarity v) (7/10 * ed_similarity v + 3/10 * si_similarity t)"
    by (simp add: mergeInto_def fromVector_def Let_def mult.commute)
  have mem: "mergeInto (fromVector v) t
      \<in> set (combineAndRankSimilarItems vectorSimilar textSimilar currentPRNumber)"
    using look key by (simp add: combineAndRank_member)
  have uniq: "m = mergeInto (fromVector v) t"
    if "m \<in> set (combineAndRankSimilarItems vectorSimilar textSimilar currentPRNumber)"
      and "keyOf m = keyOf t" for m
    using that look by (simp add: combineAndRank_member)
  show ?thesis using mem uniq sim by auto
qed

lemma descending_sort: "descending (sortBySimilarityDesc xs)"
proof -
  have "sorted (map (\<lambda>i. - si_similarity i) (sort_key (\<lambda>i. - si_similarity i) xs))"
    by (rule sorted_sort_key)
  then show ?thesis
    by (simp add: descending_def sortBySimilarityDesc_def sorted_map)
qed

lemma descending_filter: "descending xs \<Longrightarrow> descending (filter P xs)"
  by (simp add: descending_def sorted_wrt_filter)

lemma descending_take: "descending xs \<Longrightarrow> descending (take n xs)"
  by (simp add: descending_def sorted_wrt_take)

lemma verdict_isDuplicate:
  "isDuplicate (verdict th xs) \<longleftrightarrow> xs \<noteq> [] \<and> si_similarity (hd xs) \<ge> 9/10"
  by (cases xs) (simp_all add: verdict_def)

lemma verdict_items: "similarItems (verdict th xs) = xs"
  by (simp add: verdict_def)

lemma mainPath_verdict:
  assumes "mainPath th io ctx = Inr r"
  shows "(\<forall>i \<in> set (similarItems r). si_similarity i \<ge> th \<and> \<not> isCurrentPR (ctx_number ctx) i)
    \<and> descending (similarItems r) \<and> length (similarItems r) \<le> 10
    \<and> (isDuplicate r \<longleftrightarrow> similarItems r \<noteq> [] \<and> si_similarity (hd (similarItems r)) \<ge> 9/10)"
proof -
  from assms obtain vs ts where
    r: "r = verdict th (take 10 (filter (\<lambda>i. si_similarity i \<ge> th)
                                   (combineAndRankSimilarItems vs ts (ctx_number ctx))))"
    by (auto simp: mainPath_def Let_def split: sum.splits)
  define ys where "ys = combineAndRankSimilarItems vs ts (ctx_number ctx)"
  define xs where "xs = take 10 (filter (\<lambda>i. si_similarity i \<ge> th) ys)"
  have r': "r = verdict th xs" by (simp only: r xs_def ys_def)
  have items: "similarItems r = xs" by (simp only: r' verdict_items)
  have sub: "set xs \<subseteq> set (filter (\<lambda>i. si_similarity i \<ge> th) ys)"
    unfolding xs_def by (rule set_take_subset)
  have a: "\<forall>i \<in> set xs. si_similarity i \<ge> th \<and> \<not> isCurrentPR (ctx_number ctx) i"
  proof
    fix i assume "i \<in> set xs"
    with sub have "i \<in> set (filter (\<lambda>i. si_similarity i \<ge> th) ys)" by (rule subsetD)
    then have "i \<in> set ys" "si_similarity i \<ge> th" by simp_all
    then show "si_similarity i \<ge> th \<and> \<not> isCurrentPR (ctx_number ctx) i"
      unfolding ys_def by (simp add: combineAndRank_excludes_self)
  qed
  have "descending ys"
    unfolding ys_def combineAndRankSimilarItems_def Let_def by (rule descending_sort)
  then have b: "descending xs"
    unfolding xs_def by (intro descending_take descending_filter)
  have c: "length xs \<le> 10" unfolding xs_def by simp
  have d: "isDuplicate r \<longleftrightarrow> xs \<noteq> [] \<and> si_similarity (hd xs) \<ge> 9/10"
    by (simp only: r' verdict_isDuplicate)
  show ?thesis unfolding items using a b c d by blast
qed

lemma fallbackPath_verdict:
  assumes "fallbackPath th io = Inr r"
  shows "(\<forall>i \<in> set (similarItems r). si_similarity i \<ge> th) \<and> length (similarItems r) \<le> 5
    \<and> (isDuplicate r \<longleftrightarrow> similarItems r \<noteq> [] \<and> si_similarity (hd (similarItems r)) \<ge> 9/10)"
proof -
  from assms obtain ts where
    r: "r = verdict th (take 5 (filter (\<lambda>i. si_similarity i \<ge> th) ts))"
    by (auto simp: fallbackPath_def Let_def split: sum.splits)
  define xs where "xs = take 5 (filter (\<lambda>i. si_similarity i \<ge> th) ts)"
  have r': "r = verdict th xs" by (simp only: r xs_def)
  have items: "similarItems r = xs" by (simp only: r' verdict_items)
  have sub: "set xs \<subseteq> set (filter (\<lambda>i. si_similarity i \<ge> th) ts)"
    unfolding xs_def by (rule set_take_subset)
  have a: "\<forall>i \<in> set xs. si_similarity i \<ge> th"
  proof
    fix i assume "i \<in> set xs"
    with sub have "i \<in> set (filter (\<lambda>i. si_similarity i \<ge> th) ts)" by (rule subsetD)
    then show "si_similarity i \<ge> th" by simp
  qed
  have c: "length xs \<le> 5" unfolding xs_def by simp
  have d: "isDuplicate r \<longleftrightarrow> xs \<noteq> [] \<and> si_similarity (hd xs) \<ge> 9/10"
    by (simp only: r' verdict_isDuplicate)
  show ?thesis unfolding items using a c d by blast
qed

text \<open>
  The instance of \<^verbatim>\<open>test/dedup.test.ts\<close>: pull request 120 found with vector similarity
  \<open>0.85\<close> and lexical similarity \<open>0.75\<close> is merged with similarity \<open>0.85\<close>.
\<close>

theorem merged_similarity_witness:
  "distinct (map vkeyOf [vector120]) \<and> distinct (map keyOf [text120])
   \<and> vkeyOf vector120 = keyOf text120 \<and> \<not> isCurrentPR 123 text120
   \<and> mergeInto (fromVector vector120) text120
        \<in> set (combineAndRankSimilarItems [vector120] [text120] 123)
   \<and> si_similarity (mergeInto (fromVector vector120) text120) = 85/100
   \<and> si_similarity (mergeInto (fromVector vector120) text120) \<ge> ed_similarity vector120"
  using merged_similarity [of "[vector120]" "[text120]" vector120 text120 123]
  by (simp add: vkeyOf_def keyOf_def isCurrentPR_def vector120_def text120_def
      mergeInto_def fromVector_def)

subsection \<open>The catch block on its own\<close>

text \<open>
  The \<^verbatim>\<open>catch\<close> block passes on what its lexical search returns: with a search that
  returned pull request 123 itself, or candidates out of order, the verdict would hold
  them as they come. That neither happens in a run rests on the method of the adapter,
  as the next subsection shows.
\<close>

lemma fallback_returns_current_PR:
  "similarItems (findDuplicates (8/10) (lexicalOnly [own123]) context123) = [own123]
   \<and> si_type own123 = PR \<and> si_number own123 = ctx_number context123"
  by (simp add: findDuplicates_def mainPath_def fallbackPath_def lexicalOnly_def verdict_def
      own123_def context123_def)

lemma fallback_keeps_lexical_order:
  "similarItems (findDuplicates (8/10) (lexicalOnly [issue7, pr120]) context123) = [issue7, pr120]
   \<and> \<not> descending [issue7, pr120]
   \<and> \<not> isDuplicate (findDuplicates (8/10) (lexicalOnly [issue7, pr120]) context123)"
  by (simp add: findDuplicates_def mainPath_def fallbackPath_def lexicalOnly_def verdict_def
      issue7_def pr120_def context123_def descending_def)

subsection \<open>The verdict of a run\<close>

lemma set_sortBySimilarityDesc: "set (sortBySimilarityDesc xs) = set xs"
  by (simp add: sortBySimilarityDesc_def)

lemma findSimilarPRsAndIssues_result:
  "\<exists>ts. findSimilarPRsAndIssues env title body search = Inr ts \<and> descending ts
     \<and> (\<forall>i \<in> set ts. \<forall>n. payload_pull_request_number env = Some n \<longrightarrow> \<not> isCurrentPR n i)"
proof (cases "search_prs search")
  case (Inl e)
  then show ?thesis by (simp add: findSimilarPRsAndIssues_def descending_def)
next
  case prs: (Inr prResults)
  show ?thesis
  proof (cases "search_issues search")
    case (Inl e)
    with prs show ?thesis by (simp add: findSimilarPRsAndIssues_def descending_def)
  next
    case (Inr issueResults)
    let ?similar = "map (prItem title)
        (filter (\<lambda>item. Some (hit_number item) \<noteq> payload_pull_request_number env) prResults)
      @ map (issueItem title) issueResults"
    have r: "findSimilarPRsAndIssues env title body search = Inr (sortBySimilarityDesc ?similar)"
      using prs Inr by (simp add: findSimilarPRsAndIssues_def)
    have "\<forall>i \<in> set ?similar. \<forall>n. payload_pull_request_number env = Some n \<longrightarrow> \<not> isCurrentPR n i"
      by (auto simp: isCurrentPR_def prItem_def issueItem_def)
    then have "\<forall>i \<in> set (sortBySimilarityDesc ?similar).
        \<forall>n. payload_pull_request_number env = Some n \<longrightarrow> \<not> isCurrentPR n i"
      by (simp only: set_sortBySimilarityDesc)
    with r descending_sort [of ?similar] show ?thesis by blast
  qed
qed

lemma getPRContext_number:
  "getPRContext env = Inr context \<Longrightarrow> payload_pull_request_number env = Some (ctx_number context)"
  by (auto simp: getPRContext_def split: option.splits if_splits sum.splits)

lemma findDuplicates_cases:
  "mainPath th io context = Inr (findDuplicates th io context)
   \<or> (fallbackPath th io = Inr (findDuplicates th io context))
   \<or> findDuplicates th io context
       = \<lparr> similarItems = [], isDuplicate = False, duplicateThreshold = th \<rparr>"
  by (simp add: findDuplicates_def split: sum.splits)

lemma fallbackPath_items:
  assumes "fallbackPath th io = Inr r"
  shows "\<exists>ts. github_findSimilarPRsAndIssues_fallback io = Inr ts
    \<and> similarItems r = take 5 (filter (\<lambda>i. si_similarity i \<ge> th) ts)"
  using assms by (auto simp: fallbackPath_def Let_def verdict_def split: sum.splits)

lemma fallbackPath_wired:
  assumes "fallbackPath th (wired env a context) = Inr r"
  shows "descending (similarItems r)
    \<and> (\<forall>i \<in> set (similarItems r).
          \<forall>n. payload_pull_request_number env = Some n \<longrightarrow> \<not> isCurrentPR n i)"
proof -
  from fallbackPath_items [OF assms] obtain ts where
    ts: "findSimilarPRsAndIssues env (ctx_title context) (ctx_body context) (lexicalSearchAgain a)
          = Inr ts"
    and items: "similarItems r = take 5 (filter (\<lambda>i. si_similarity i \<ge> th) ts)"
    by (auto simp: wired_def)
  from findSimilarPRsAndIssues_result [of env "ctx_title context" "ctx_body context"
      "lexicalSearchAgain a"] ts
  have d: "descending ts"
    and f: "\<forall>i \<in> set ts. \<forall>n. payload_pull_request_number env = Some n \<longrightarrow> \<not> isCurrentPR n i"
    by auto
  have "descending (take 5 (filter (\<lambda>i. si_similarity i \<ge> th) ts))"
    using d by (intro descending_take descending_filter)
  moreover have "set (take 5 (filter (\<lambda>i. si_similarity i \<ge> th) ts)) \<subseteq> set ts"
    using set_take_subset [of 5 "filter (\<lambda>i. si_similarity i \<ge> th) ts"] by auto
  ultimately show ?thesis unfolding items using f by blast
qed

text \<open>
  Claim C1. In a run on a pull request, whatever the store returns for the vector search
  and whatever the API answers to the searches, and whether the \<^verbatim>\<open>try\<close> block returns
  or the \<^verbatim>\<open>catch\<close> block does, no candidate of the verdict is the pull request itself.
\<close>

theorem findDuplicates_excludes_current_PR:
  assumes "getPRContext env = Inr context"
  shows "deduplication th env a = Inr (findDuplicates th (wired env a context) context)
    \<and> (\<forall>i \<in> set (similarItems (findDuplicates th (wired env a context) context)).
          \<not> (si_type i = PR \<and> si_number i = ctx_number context))"
proof -
  let ?io = "wired env a context"
  let ?r = "findDuplicates th ?io context"
  have p: "payload_pull_request_number env = Some (ctx_number context)"
    using assms by (rule getPRContext_number)
  have "\<forall>i \<in> set (similarItems ?r). \<not> isCurrentPR (ctx_number context) i"
    using findDuplicates_cases [of th "?io" "context"]
  proof (elim disjE)
    assume "mainPath th ?io context = Inr ?r"
    from mainPath_verdict [OF this] show ?thesis by blast
  next
    assume "fallbackPath th ?io = Inr ?r"
    from fallbackPath_wired [OF this] p show ?thesis by blast
  next
    assume "?r = \<lparr> similarItems = [], isDuplicate = False, duplicateThreshold = th \<rparr>"
    then have "similarItems ?r = []" by simp
    then show ?thesis by simp
  qed
  then have "\<forall>i \<in> set (similarItems ?r). \<not> (si_type i = PR \<and> si_number i = ctx_number context)"
    by (auto simp: isCurrentPR_def)
  moreover have "deduplication th env a = Inr ?r" using assms by (simp add: deduplication_def)
  ultimately show ?thesis by blast
qed

text \<open>
  Claim C2. Whether the \<^verbatim>\<open>try\<close> block returns or the \<^verbatim>\<open>catch\<close> block does, every
  candidate of the verdict reaches the configured threshold, the candidates are in
  descending order of similarity and at most 10, and \<open>isDuplicate\<close> holds exactly when there
  is a candidate and the first one reaches \<open>0.9\<close>.
\<close>

theorem findDuplicates_verdict:
  "(\<forall>i \<in> set (similarItems (findDuplicates th (wired env a context) context)).
       si_similarity i \<ge> th)
   \<and> descending (similarItems (findDuplicates th (wired env a context) context))
   \<and> length (similarItems (findDuplicates th (wired env a context) context)) \<le> 10
   \<and> (isDuplicate (findDuplicates th (wired env a context) context) \<longleftrightarrow>
        similarItems (findDuplicates th (wired env a context) context) \<noteq> []
        \<and> si_similarity (hd (similarItems (findDuplicates th (wired env a context) context)))
            \<ge> 9/10)"
proof -
  let ?io = "wired env a context"
  let ?r = "findDuplicates th ?io context"
  show ?thesis using findDuplicates_cases [of th "?io" "context"]
  proof (elim disjE)
    assume "mainPath th ?io context = Inr ?r"
    from mainPath_verdict [OF this] show ?thesis by blast
  next
    assume f: "fallbackPath th ?io = Inr ?r"
    from fallbackPath_verdict [OF f]
    have a: "\<forall>i \<in> set (similarItems ?r). si_similarity i \<ge> th"
      and b: "length (similarItems ?r) \<le> 5"
      and c: "isDuplicate ?r \<longleftrightarrow> similarItems ?r \<noteq> [] \<and> si_similarity (hd (similarItems ?r)) \<ge> 9/10"
      by blast+
    from fallbackPath_wired [OF f] have d: "descending (similarItems ?r)" by blast
    from b have "length (similarItems ?r) \<le> 10" by linarith
    with a c d show ?thesis by blast
  next
    assume e: "?r = \<lparr> similarItems = [], isDuplicate = False, duplicateThreshold = th \<rparr>"
    have "similarItems ?r = []" "\<not> isDuplicate ?r" unfolding e by simp_all
    then show ?thesis by (simp add: descending_def)
  qed
qed

text \<open>
  Pull request 123 is in the vector result and in the search result; the \<^verbatim>\<open>try\<close> block
  and the \<^verbatim>\<open>catch\<close> block both return the pull requests 120 and 119 only.
\<close>

theorem findDuplicates_excludes_current_PR_witness:
  "getPRContext env123 = Inr prContext123
   \<and> ed_type vector123 = PR \<and> ed_number vector123 = ctx_number prContext123
   \<and> hit_number (hit 123 ''Add rate limiting'') = ctx_number prContext123
   \<and> deduplication (1/2) env123 answersMain
       = Inr (findDuplicates (1/2) (wired env123 answersMain prContext123) prContext123)
   \<and> map si_number (similarItems (findDuplicates (1/2) (wired env123 answersMain prContext123) prContext123))
       = [120, 119]
   \<and> deduplication (1/2) env123 answersFallback
       = Inr (findDuplicates (1/2) (wired env123 answersFallback prContext123) prContext123)
   \<and> map si_number (similarItems (findDuplicates (1/2) (wired env123 answersFallback prContext123) prContext123))
       = [120, 119]"
proof -
  have c: "getPRContext env123 = Inr prContext123" by code_simp
  have v: "ed_type vector123 = PR" "ed_number vector123 = ctx_number prContext123"
    "hit_number (hit 123 ''Add rate limiting'') = ctx_number prContext123"
    by (simp_all add: vector123_def prContext123_def hit_def)
  have m: "map si_number (similarItems (findDuplicates (1/2) (wired env123 answersMain prContext123) prContext123))
       = [120, 119]" by code_simp
  have f: "map si_number (similarItems (findDuplicates (1/2) (wired env123 answersFallback prContext123) prContext123))
       = [120, 119]" by code_simp
  from findDuplicates_excludes_current_PR [OF c, of "1/2" answersMain]
  have dm: "deduplication (1/2) env123 answersMain
       = Inr (findDuplicates (1/2) (wired env123 answersMain prContext123) prContext123)"
    by blast
  from findDuplicates_excludes_current_PR [OF c, of "1/2" answersFallback]
  have df: "deduplication (1/2) env123 answersFallback
       = Inr (findDuplicates (1/2) (wired env123 answersFallback prContext123) prContext123)"
    by blast
  from c v m f dm df show ?thesis by blast
qed

text \<open>
  The searches answer with pull request 119 (similarity \<open>2/3\<close>) before pull request 120
  (similarity \<open>1\<close>); the verdict of the \<^verbatim>\<open>catch\<close> block lists 120 first.
\<close>

theorem findDuplicates_verdict_witness:
  "map si_similarity
     (similarItems (findDuplicates (1/2) (wired env123 answersFallback prContext123) prContext123))
     = [1, 2/3]
   \<and> descending (similarItems (findDuplicates (1/2) (wired env123 answersFallback prContext123) prContext123))
   \<and> length (similarItems (findDuplicates (1/2) (wired env123 answersFallback prContext123) prContext123))
       \<le> 10
   \<and> isDuplicate (findDuplicates (1/2) (wired env123 answersFallback prContext123) prContext123)"
proof -
  let ?r = "findDuplicates (1/2) (wired env123 answersFallback prContext123) prContext123"
  have s: "map si_similarity (similarItems ?r) = [1, 2/3]" by code_simp
  note t = findDuplicates_verdict [of "1/2" env123 answersFallback prContext123]
  from t have d: "descending (similarItems ?r)" and l: "length (similarItems ?r) \<le> 10"
    and i: "isDuplicate ?r \<longleftrightarrow>
      similarItems ?r \<noteq> [] \<and> si_similarity (hd (similarItems ?r)) \<ge> 9/10"
    by blast+
  from s have ne: "similarItems ?r \<noteq> []" by auto
  from s have "hd (map si_similarity (similarItems ?r)) = 1" by simp
  with ne have "si_similarity (hd (similarItems ?r)) = 1" by (simp add: hd_map)
  with i ne have "isDuplicate ?r" by simp
  with s d l show ?thesis by blast
qed

section \<open>Text similarity: identical and swapped arguments\<close>

lemma firstIndex_le:
  "n < length xs \<Longrightarrow> xs ! n = c \<Longrightarrow> \<exists>k\<le>n. firstIndex c xs = Some k"
proof (induction xs arbitrary: n)
  case Nil
  then show ?case by simp
next
  case (Cons x xs)
  show ?case
  proof (cases "x = c")
    case True
    then show ?thesis by simp
  next
    case False
    with Cons.prems obtain n' where n': "n = Suc n'" by (cases n) auto
    with Cons.prems have "n' < length xs" "xs ! n' = c" by auto
    from Cons.IH [OF this] obtain k where "k \<le> n'" "firstIndex c xs = Some k" by blast
    with False n' show ?thesis by auto
  qed
qed

lemma indexOf_own_char:
  assumes "j \<le> i" and "i < length s"
  shows "\<exists>found. indexOf s (s ! i) j = Some found \<and> found \<le> i"
proof -
  have jl: "j \<le> length s" using assms by linarith
  have l: "i - j < length (drop j s)" unfolding length_drop using assms by linarith
  have "drop j s ! (i - j) = s ! (j + (i - j))" using jl by (rule nth_drop)
  also have "j + (i - j) = i" using assms(1) by linarith
  finally have e: "drop j s ! (i - j) = s ! i" .
  from firstIndex_le [OF l e]
  obtain k where k: "k \<le> i - j" "firstIndex (s ! i) (drop j s) = Some k" by blast
  have "j + k \<le> i" using k(1) assms(1) by linarith
  then show ?thesis by (simp only: indexOf_def k(2) option.map) blast
qed

lemma scanMatches_self:
  "n = length s - i \<Longrightarrow> j \<le> i \<Longrightarrow> i \<le> length s \<Longrightarrow>
   scanMatches (drop i s) s j m = m + (length s - i)"
proof (induction n arbitrary: i j m)
  case 0
  then show ?case by simp
next
  case (Suc n)
  then have i: "i < length s" by simp
  then have d: "drop i s = s ! i # drop (Suc i) s" by (simp add: Cons_nth_drop_Suc)
  have jl: "j < length s" using Suc.prems(2) i by simp
  from indexOf_own_char [OF Suc.prems(2) i]
  obtain found where f: "indexOf s (s ! i) j = Some found" "found \<le> i" by blast
  have step: "scanMatches (s ! i # drop (Suc i) s) s j m
      = scanMatches (drop (Suc i) s) s (found + 1) (m + 1)"
    by (simp only: scanMatches.simps jl f(1) if_True option.case)
  have n: "n = length s - Suc i" using Suc.prems(1) by simp
  have ih: "scanMatches (drop (Suc i) s) s (found + 1) (m + 1) = (m + 1) + (length s - Suc i)"
    using n f(2) i by (intro Suc.IH) simp_all
  have "m + 1 + (length s - Suc i) = m + (length s - i)" using i by simp
  then show ?case by (simp only: d step ih)
qed

lemma calculateCharacterSimilarity_self:
  "s \<noteq> [] \<Longrightarrow> calculateCharacterSimilarity s s = 1"
  using scanMatches_self [of "length s" s 0 0 0]
  by (simp add: calculateCharacterSimilarity_def)

lemma newSet_acc:
  "set (foldl (\<lambda>acc x. if x \<in> set acc then acc else acc @ [x]) acc xs) = set acc \<union> set xs
   \<and> (distinct acc \<longrightarrow> distinct (foldl (\<lambda>acc x. if x \<in> set acc then acc else acc @ [x]) acc xs))"
  by (induction xs arbitrary: acc) auto

lemma set_newSet: "set (newSet xs) = set xs"
  using newSet_acc [of "[]" xs] by (simp add: newSet_def)

lemma distinct_newSet: "distinct (newSet xs)"
  using newSet_acc [of "[]" xs] by (simp add: newSet_def)

lemma length_newSet: "length (newSet xs) = card (set xs)"
  using distinct_card [OF distinct_newSet, of xs] by (simp add: set_newSet)

lemma splitOn_not_Nil: "splitOn sep s \<noteq> []"
  by (induction s) (auto split: list.splits)

lemma jaccard_self:
  assumes "ws = newSet (splitOn sep s)"
  shows "length (newSet (filter (\<lambda>x. x \<in> set ws) ws)) = length (newSet (ws @ ws))"
    and "length (newSet (ws @ ws)) > 0"
proof -
  have "set ws \<noteq> {}" using assms splitOn_not_Nil [of sep s] by (simp add: set_newSet)
  then have "card (set ws) > 0" by (simp add: card_gt_0_iff)
  then show "length (newSet (ws @ ws)) > 0" by (simp add: length_newSet)
  show "length (newSet (filter (\<lambda>x. x \<in> set ws) ws)) = length (newSet (ws @ ws))"
    by (simp add: length_newSet)
qed

lemma calculateTextSimilarity_unfold:
  "n1 \<noteq> [] \<Longrightarrow> n2 \<noteq> [] \<Longrightarrow> normalize text1 = n1 \<Longrightarrow> normalize text2 = n2 \<Longrightarrow>
   w1 = newSet (splitOn CHR '' '' n1) \<Longrightarrow> w2 = newSet (splitOn CHR '' '' n2) \<Longrightarrow>
   0 < length (newSet (w1 @ w2)) \<Longrightarrow>
   calculateTextSimilarity text1 text2
     = real (length (newSet (filter (\<lambda>x. x \<in> set w2) w1))) / real (length (newSet (w1 @ w2)))
         * (7/10)
       + calculateCharacterSimilarity n1 n2 * (3/10)"
  unfolding calculateTextSimilarity_def Let_def by (simp only: if_False if_True simp_thms)

lemma calculateTextSimilarity_same_normal_form:
  assumes "normalize a = normalize b" and "normalize a \<noteq> []"
  shows "calculateTextSimilarity a b = 1"
proof -
  define n where "n = normalize b"
  define ws where "ws = newSet (splitOn CHR '' '' n)"
  have n: "n \<noteq> []" "normalize a = n" "normalize b = n" using assms by (simp_all add: n_def)
  have j: "length (newSet (filter (\<lambda>x. x \<in> set ws) ws)) = length (newSet (ws @ ws))"
    "length (newSet (ws @ ws)) > 0"
    using jaccard_self [OF ws_def] by blast+
  have c: "calculateCharacterSimilarity n n = 1"
    using n(1) by (rule calculateCharacterSimilarity_self)
  have "calculateTextSimilarity a b
     = real (length (newSet (filter (\<lambda>x. x \<in> set ws) ws))) / real (length (newSet (ws @ ws)))
         * (7/10)
       + calculateCharacterSimilarity n n * (3/10)"
    using n(1) n(1) n(2) n(3) ws_def ws_def j(2) by (rule calculateTextSimilarity_unfold)
  also have "\<dots> = 1" unfolding j(1) c using j(2) by simp
  finally show ?thesis .
qed

text \<open>
  Claim C6. A string whose normal form is not empty has similarity \<open>1\<close> to itself; two
  strings with the same non-empty normal form have similarity \<open>1\<close>, in particular two
  strings that differ in letter case only; and when the normal form of either argument
  is empty, the similarity is \<open>0\<close>.
\<close>

theorem textSimilarity_identical:
  "(normalize s \<noteq> [] \<longrightarrow> calculateTextSimilarity s s = 1)
   \<and> (normalize a = normalize b \<and> normalize a \<noteq> [] \<longrightarrow> calculateTextSimilarity a b = 1)
   \<and> (toLowerCase a = toLowerCase b \<and> normalize a \<noteq> [] \<longrightarrow> calculateTextSimilarity a b = 1)
   \<and> (normalize a = [] \<or> normalize b = [] \<longrightarrow> calculateTextSimilarity a b = 0)"
proof (intro conjI impI)
  assume "normalize s \<noteq> []"
  then show "calculateTextSimilarity s s = 1"
    by (rule calculateTextSimilarity_same_normal_form [OF refl])
next
  assume "normalize a = normalize b \<and> normalize a \<noteq> []"
  then show "calculateTextSimilarity a b = 1"
    using calculateTextSimilarity_same_normal_form by blast
next
  assume h: "toLowerCase a = toLowerCase b \<and> normalize a \<noteq> []"
  then have e: "toLowerCase a = toLowerCase b" by blast
  have n: "normalize a = normalize b" unfolding normalize_def e by (rule refl)
  from h have "normalize a \<noteq> []" by blast
  with n show "calculateTextSimilarity a b = 1"
    by (rule calculateTextSimilarity_same_normal_form)
next
  assume "normalize a = [] \<or> normalize b = []"
  then show "calculateTextSimilarity a b = 0"
    by (auto simp: calculateTextSimilarity_def)
qed




text \<open>
  The strings of \<^verbatim>\<open>test/dedup.test.ts\<close> that differ in letter case only, and a string of
  punctuation, whose normal form is empty.
\<close>

theorem textSimilarity_identical_witness:
  "normalize ''Add Rate Limiting'' = normalize ''add rate limiting''
   \<and> normalize ''Add Rate Limiting'' = ''add rate limiting''
   \<and> calculateTextSimilarity ''Add Rate Limiting'' ''Add Rate Limiting'' = 1
   \<and> calculateTextSimilarity ''Add Rate Limiting'' ''add rate limiting'' = 1
   \<and> normalize ''?!'' = []
   \<and> calculateTextSimilarity ''?!'' ''some text'' = 0"
proof -
  have n1: "normalize ''Add Rate Limiting'' = ''add rate limiting''" by code_simp
  have n2: "normalize ''add rate limiting'' = ''add rate limiting''" by code_simp
  have n3: "normalize ''?!'' = []" by code_simp
  have ne: "normalize ''Add Rate Limiting'' \<noteq> []" unfolding n1 by simp
  have eq: "normalize ''Add Rate Limiting'' = normalize ''add rate limiting''"
    unfolding n1 n2 by (rule refl)
  note t1 = textSimilarity_identical
    [of "''Add Rate Limiting''" "''Add Rate Limiting''" "''add rate limiting''"]
  note t2 = textSimilarity_identical [of "''?!''" "''?!''" "''some text''"]
  have r1: "calculateTextSimilarity ''Add Rate Limiting'' ''Add Rate Limiting'' = 1"
    using t1 ne by blast
  have r2: "calculateTextSimilarity ''Add Rate Limiting'' ''add rate limiting'' = 1"
    using t1 ne eq by blast
  have r3: "calculateTextSimilarity ''?!'' ''some text'' = 0"
    using t2 n3 by blast
  show ?thesis using eq n1 r1 r2 n3 r3 by blast
qed




lemma calculateCharacterSimilarity_equal_length:
  "length text1 = length text2 \<Longrightarrow> text1 \<noteq> [] \<Longrightarrow>
   calculateCharacterSimilarity text1 text2
     = real (scanMatches text2 text1 0 0) / real (length text1)"
  by (auto simp: calculateCharacterSimilarity_def)

text \<open>
  Claim C9. The strings \<open>abc\<close> and \<open>cab\<close> are their own normal forms and have similarity
  \<open>0.1\<close> in one order and \<open>0.2\<close> in the other. The reason: for two non-empty arguments of
  the same length, \<^verbatim>\<open>calculateCharacterSimilarity\<close> scans its second argument through its
  first.
\<close>

theorem textSimilarity_not_symmetric:
  "normalize ''abc'' = ''abc'' \<and> normalize ''cab'' = ''cab''
   \<and> calculateTextSimilarity ''abc'' ''cab'' = 1/10
   \<and> calculateTextSimilarity ''cab'' ''abc'' = 1/5
   \<and> calculateTextSimilarity ''abc'' ''cab'' \<noteq> calculateTextSimilarity ''cab'' ''abc''
   \<and> (\<forall>text1 text2. length text1 = length text2 \<and> text1 \<noteq> [] \<longrightarrow>
         calculateCharacterSimilarity text1 text2
           = real (scanMatches text2 text1 0 0) / real (length text1))"
proof -
  have a: "normalize ''abc'' = ''abc''" by code_simp
  have b: "normalize ''cab'' = ''cab''" by code_simp
  have c: "calculateTextSimilarity ''abc'' ''cab'' = 1/10" by code_simp
  have d: "calculateTextSimilarity ''cab'' ''abc'' = 1/5" by code_simp
  have e: "calculateTextSimilarity ''abc'' ''cab'' \<noteq> calculateTextSimilarity ''cab'' ''abc''"
    unfolding c d by simp
  have f: "\<forall>text1 text2. length text1 = length text2 \<and> text1 \<noteq> [] \<longrightarrow>
         calculateCharacterSimilarity text1 text2
           = real (scanMatches text2 text1 0 0) / real (length text1)"
    using calculateCharacterSimilarity_equal_length by blast
  show ?thesis using a b c d e f by blast
qed




text \<open>Scanning \<open>cab\<close> through \<open>abc\<close> finds one character, scanning \<open>abc\<close> through \<open>cab\<close> two.\<close>

theorem textSimilarity_not_symmetric_witness:
  "length ''abc'' = length ''cab''
   \<and> calculateCharacterSimilarity ''abc'' ''cab'' = 1/3
   \<and> scanMatches ''cab'' ''abc'' 0 0 = 1
   \<and> calculateCharacterSimilarity ''cab'' ''abc'' = 2/3
   \<and> scanMatches ''abc'' ''cab'' 0 0 = 2"
proof -
  have s1: "scanMatches ''cab'' ''abc'' 0 0 = 1" by code_simp
  have s2: "scanMatches ''abc'' ''cab'' 0 0 = 2" by code_simp
  have l: "length ''abc'' = length ''cab''" "length ''cab'' = length ''abc''"
    "''abc'' \<noteq> []" "''cab'' \<noteq> []" "real (length ''abc'') = 3" "real (length ''cab'') = 3"
    by simp_all
  from textSimilarity_not_symmetric
  have g: "\<forall>text1 text2. length text1 = length text2 \<and> text1 \<noteq> [] \<longrightarrow>
         calculateCharacterSimilarity text1 text2
           = real (scanMatches text2 text1 0 0) / real (length text1)" by blast
  have c1: "calculateCharacterSimilarity ''abc'' ''cab'' = 1/3"
    using g [rule_format, of "''abc''" "''cab''"] l(1,3) unfolding s1 l(5) by simp
  have c2: "calculateCharacterSimilarity ''cab'' ''abc'' = 2/3"
    using g [rule_format, of "''cab''" "''abc''"] l(2,4) unfolding s2 l(6) by simp
  show ?thesis using l(1) c1 c2 s1 s2 by blast
qed

section \<open>parseDiff: line numbers\<close>

lemma numbered_newChunk: "numbered (newChunk m)"
  by (cases m) (simp add: numbered_def newChunk_def)

lemma lineNumber_diffLine:
  "lineNumber (diffLine c line) =
     (if lineType (diffLine c line) = Added
      then newStart c + length (filter (\<lambda>l. lineType l \<noteq> Removed) (lines c))
      else oldStart c + length (filter (\<lambda>l. lineType l \<noteq> Added) (lines c)))"
  by (simp add: diffLine_def Let_def)

lemma numbered_append:
  assumes "numbered c"
  shows "numbered (c\<lparr> lines := lines c @ [diffLine c line] \<rparr>)"
  unfolding numbered_def
proof (intro allI impI)
  fix i
  let ?c' = "c\<lparr> lines := lines c @ [diffLine c line] \<rparr>"
  assume "i < length (lines ?c')"
  then have "i < length (lines c) \<or> i = length (lines c)" by auto
  then show "lineNumber (lines ?c' ! i) =
          (if lineType (lines ?c' ! i) = Added
           then newStart ?c' + length (filter (\<lambda>l. lineType l \<noteq> Removed) (take i (lines ?c')))
           else oldStart ?c' + length (filter (\<lambda>l. lineType l \<noteq> Added) (take i (lines ?c'))))"
  proof
    assume "i < length (lines c)"
    then show ?thesis using assms by (simp add: numbered_def nth_append)
  next
    assume "i = length (lines c)"
    then show ?thesis using lineNumber_diffLine [of c line] by simp
  qed
qed

lemma finish_parseLine_cases:
  "finish (parseLine st line) = finish st
   \<or> (\<exists>m. finish (parseLine st line) = finish st @ [newChunk m])
   \<or> (\<exists>c. currentChunk st = Some c
          \<and> finish st = chunks st @ [c]
          \<and> finish (parseLine st line) = chunks st @ [c\<lparr> lines := lines c @ [diffLine c line] \<rparr>])"
  by (auto simp: parseLine_def finish_def split: option.splits)

lemma numbered_parseLine:
  assumes "\<forall>c \<in> set (finish st). numbered c"
  shows "\<forall>c \<in> set (finish (parseLine st line)). numbered c"
  using finish_parseLine_cases [of st line]
proof (elim disjE exE conjE)
  assume "finish (parseLine st line) = finish st"
  with assms show ?thesis by simp
next
  fix m assume "finish (parseLine st line) = finish st @ [newChunk m]"
  with assms show ?thesis by (simp add: numbered_newChunk)
next
  fix c
  assume c: "finish st = chunks st @ [c]"
    and f: "finish (parseLine st line) = chunks st @ [c\<lparr> lines := lines c @ [diffLine c line] \<rparr>]"
  from assms c have "numbered c" "\<forall>x \<in> set (chunks st). numbered x" by simp_all
  with f show ?thesis by (simp add: numbered_append)
qed

lemma numbered_foldl:
  "\<forall>c \<in> set (finish st). numbered c \<Longrightarrow> \<forall>c \<in> set (finish (foldl parseLine st ls)). numbered c"
proof (induction ls arbitrary: st)
  case Nil
  then show ?case by simp
next
  case (Cons l ls)
  from numbered_parseLine [OF Cons.prems] have "\<forall>c \<in> set (finish (parseLine st l)). numbered c" .
  from Cons.IH [OF this] show ?case by simp
qed

lemma numbered_parseDiff: "c \<in> set (parseDiff diff) \<Longrightarrow> numbered c"
proof -
  assume c: "c \<in> set (parseDiff diff)"
  have "\<forall>c \<in> set (finish initial). numbered c" by (simp add: finish_def initial_def)
  from numbered_foldl [OF this]
  have "\<forall>c \<in> set (finish (foldl parseLine initial (splitOn (CHR 0x0A) diff))). numbered c" .
  with c show ?thesis by (simp add: parseDiff_def split: if_splits)
qed

text \<open>
  Claim C4. In every chunk that \<^verbatim>\<open>parseDiff\<close> returns, an added line carries \<open>newStart\<close>
  plus the number of lines before it in the chunk that are not removed lines, and a
  removed line carries \<open>oldStart\<close> plus the number of lines before it in the chunk that are
  not added lines.
\<close>

theorem parseDiff_lineNumber:
  assumes "chunk \<in> set (parseDiff diff)" and "i < length (lines chunk)"
  shows "(lineType (lines chunk ! i) = Added \<longrightarrow>
            lineNumber (lines chunk ! i)
              = newStart chunk
                + length (filter (\<lambda>l. lineType l \<noteq> Removed) (take i (lines chunk))))
       \<and> (lineType (lines chunk ! i) = Removed \<longrightarrow>
            lineNumber (lines chunk ! i)
              = oldStart chunk
                + length (filter (\<lambda>l. lineType l \<noteq> Added) (take i (lines chunk))))"
  using numbered_parseDiff [OF assms(1)] assms(2) by (simp add: numbered_def)

section \<open>parseDiff: which lines enter a hunk\<close>

lemma chunkMatch_prefix: "chunkMatch line = Some m \<Longrightarrow> startsWith line ''@@ -''"
  by (auto simp: chunkMatch_def matchLiteral_def split: option.splits if_splits)

lemma not_header:
  assumes "startsWith line ''+'' \<or> startsWith line ''-'' \<or> startsWith line '' ''
           \<or> isMetadata line"
  shows "chunkMatch line = None"
proof (cases "chunkMatch line")
  case None
  then show ?thesis .
next
  case (Some m)
  then have "startsWith line ''@@ -''" by (rule chunkMatch_prefix)
  then obtain rest where "line = CHR ''@'' # rest"
    by (cases line) (auto simp: startsWith_def)
  with assms show ?thesis by (auto simp: startsWith_def isMetadata_def)
qed

lemma parseLine_metadata: "isMetadata line \<Longrightarrow> parseLine st line = st"
  by (simp add: parseLine_def not_header)

lemma parseLine_diffLine:
  assumes "currentChunk st = Some c" and "\<not> isMetadata line"
    and "startsWith line ''+'' \<or> startsWith line ''-'' \<or> startsWith line '' ''"
  shows "parseLine st line = st\<lparr> currentChunk := Some (c\<lparr> lines := lines c @ [diffLine c line] \<rparr>) \<rparr>"
  using assms not_header [of line] by (auto simp: parseLine_def)

lemma extends_refl: "extends c c"
  by (simp add: extends_def)

lemma extends_length: "extends a b \<Longrightarrow> length (lines a) \<le> length (lines b)"
proof -
  assume "extends a b"
  then have "take (length (lines a)) (lines b) = lines a" unfolding extends_def by blast
  then have "length (take (length (lines a)) (lines b)) = length (lines a)" by (rule arg_cong)
  then have "min (length (lines b)) (length (lines a)) = length (lines a)"
    by (simp only: length_take)
  then show ?thesis by linarith
qed

lemma extends_trans:
  assumes ab: "extends a b" and bc: "extends b c"
  shows "extends a c"
proof -
  from ab have ta: "take (length (lines a)) (lines b) = lines a" unfolding extends_def by blast
  from bc have tb: "take (length (lines b)) (lines c) = lines b" unfolding extends_def by blast
  have m: "min (length (lines a)) (length (lines b)) = length (lines a)"
    using extends_length [OF ab] by (rule min_absorb1)
  have "take (length (lines a)) (take (length (lines b)) (lines c))
      = take (length (lines a)) (lines c)"
    by (simp only: take_take m)
  then have t: "take (length (lines a)) (lines c) = lines a" by (simp only: tb ta)
  from ab bc have "oldStart c = oldStart a" "oldLines c = oldLines a"
    "newStart c = newStart a" "newLines c = newLines a"
    unfolding extends_def by simp_all
  with t show ?thesis unfolding extends_def by blast
qed

lemma grows_refl: "grows xs xs"
  by (simp add: grows_def extends_refl)

lemma grows_trans:
  assumes "grows xs ys" and "grows ys zs"
  shows "grows xs zs"
  unfolding grows_def
proof (intro conjI allI impI)
  from assms show "length xs \<le> length zs" unfolding grows_def by linarith
next
  fix i assume i: "i < length xs"
  with assms(1) have "i < length ys" unfolding grows_def by linarith
  with assms(2) have "extends (ys ! i) (zs ! i)" unfolding grows_def by blast
  moreover from assms(1) i have "extends (xs ! i) (ys ! i)" unfolding grows_def by blast
  ultimately show "extends (xs ! i) (zs ! i)" by (rule extends_trans [rotated])
qed

lemma grows_snoc: "grows xs (xs @ [y])"
  by (simp add: grows_def nth_append extends_refl)

lemma grows_last: "extends c c' \<Longrightarrow> grows (xs @ [c]) (xs @ [c'])"
  by (auto simp: grows_def nth_append extends_refl)

lemma grows_parseLine: "grows (finish st) (finish (parseLine st line))"
  using finish_parseLine_cases [of st line]
proof (elim disjE exE conjE)
  assume "finish (parseLine st line) = finish st"
  then show ?thesis by (simp add: grows_refl)
next
  fix m assume "finish (parseLine st line) = finish st @ [newChunk m]"
  then show ?thesis by (simp add: grows_snoc)
next
  fix c
  assume c: "finish st = chunks st @ [c]"
    and f: "finish (parseLine st line) = chunks st @ [c\<lparr> lines := lines c @ [diffLine c line] \<rparr>]"
  have "extends c (c\<lparr> lines := lines c @ [diffLine c line] \<rparr>)" by (simp add: extends_def)
  then show ?thesis unfolding c f by (rule grows_last)
qed

lemma grows_foldl: "grows (finish st) (finish (foldl parseLine st ls))"
proof (induction ls arbitrary: st)
  case Nil
  then show ?case by (simp add: grows_refl)
next
  case (Cons l ls)
  have "grows (finish st) (finish (parseLine st l))" by (rule grows_parseLine)
  moreover have "grows (finish (parseLine st l)) (finish (foldl parseLine (parseLine st l) ls))"
    by (rule Cons.IH)
  ultimately show ?case by (simp add: grows_trans)
qed

lemma appended_survives:
  assumes "currentChunk st = Some c" and "\<not> isMetadata line"
    and "startsWith line ''+'' \<or> startsWith line ''-'' \<or> startsWith line '' ''"
  shows "length (chunks st) < length (finish (foldl parseLine st (line # after)))
    \<and> appendedTo c (diffLine c line) (finish (foldl parseLine st (line # after)) ! length (chunks st))"
proof -
  let ?c1 = "c\<lparr> lines := lines c @ [diffLine c line] \<rparr>"
  let ?st1 = "st\<lparr> currentChunk := Some ?c1 \<rparr>"
  let ?out = "finish (foldl parseLine st (line # after))"
  have st1: "parseLine st line = ?st1" using assms by (rule parseLine_diffLine)
  have f1: "finish ?st1 = chunks st @ [?c1]" by (simp add: finish_def)
  have "grows (finish ?st1) (finish (foldl parseLine ?st1 after))" by (rule grows_foldl)
  then have g: "grows (chunks st @ [?c1]) ?out" by (simp add: st1 f1)
  then have len: "length (chunks st) < length ?out" by (simp add: grows_def)
  have "length (chunks st) < length (chunks st @ [?c1])" by simp
  with g have "extends ((chunks st @ [?c1]) ! length (chunks st)) (?out ! length (chunks st))"
    unfolding grows_def by blast
  then have "extends ?c1 (?out ! length (chunks st))" by (simp only: nth_append_length)
  then have "appendedTo c (diffLine c line) (?out ! length (chunks st))"
    by (simp add: extends_def appendedTo_def)
  with len show ?thesis by simp
qed

lemma diffLine_fields:
  "lineType (diffLine c line)
     = (if startsWith line ''+'' then Added else if startsWith line ''-'' then Removed else Context)
   \<and> content (diffLine c line) = drop 1 line"
  by (simp add: diffLine_def Let_def)

text \<open>
  What the loop does with a line. Let \<open>line\<close> be a line of the diff text, \<open>before\<close> the
  lines in front of it and \<open>after\<close> the lines behind it. If \<open>line\<close> begins with one of the
  four prefixes of \<open>isMetadata\<close>, the result is the one for the text without it. If a hunk
  \<open>c\<close> is open when \<open>line\<close> is reached, and \<open>line\<close> begins with \<^verbatim>\<open>+\<close>, \<^verbatim>\<open>-\<close> or a space
  but with none of the four prefixes, then the result holds that hunk with, directly after
  the lines of \<open>c\<close>, a line of type Added, Removed or Context respectively, whose content
  is \<open>line\<close> without its first character.
\<close>

lemma parseDiff_line_fate:
  assumes "diff \<noteq> []" and "splitOn (CHR 0x0A) diff = before @ line # after"
  shows "(isMetadata line \<longrightarrow>
            parseDiff diff = finish (foldl parseLine initial (before @ after)))
       \<and> (\<forall>c. currentChunk (foldl parseLine initial before) = Some c \<and> \<not> isMetadata line
               \<and> (startsWith line ''+'' \<or> startsWith line ''-'' \<or> startsWith line '' '') \<longrightarrow>
             length (chunks (foldl parseLine initial before)) < length (parseDiff diff)
             \<and> (\<exists>l. appendedTo c l
                       (parseDiff diff ! length (chunks (foldl parseLine initial before)))
                   \<and> lineType l = (if startsWith line ''+'' then Added
                                    else if startsWith line ''-'' then Removed else Context)
                   \<and> content l = drop 1 line))"
proof (intro conjI impI allI)
  assume "isMetadata line"
  then show "parseDiff diff = finish (foldl parseLine initial (before @ after))"
    using assms by (simp add: parseDiff_def parseLine_metadata)
next
  fix c
  let ?st = "foldl parseLine initial before"
  assume h: "currentChunk ?st = Some c \<and> \<not> isMetadata line
               \<and> (startsWith line ''+'' \<or> startsWith line ''-'' \<or> startsWith line '' '')"
  have p: "parseDiff diff = finish (foldl parseLine ?st (line # after))"
    using assms by (simp add: parseDiff_def)
  from h have h1: "currentChunk ?st = Some c" and h2: "\<not> isMetadata line"
    and h3: "startsWith line ''+'' \<or> startsWith line ''-'' \<or> startsWith line '' ''"
    by blast+
  note s = appended_survives [OF h1 h2 h3, of after, folded p]
  from s show "length (chunks ?st) < length (parseDiff diff)" by blast
  from s diffLine_fields [of c line]
  show "\<exists>l. appendedTo c l (parseDiff diff ! length (chunks ?st))
             \<and> lineType l = (if startsWith line ''+'' then Added
                              else if startsWith line ''-'' then Removed else Context)
             \<and> content l = drop 1 line"
    by blast
qed

text \<open>The hunk that replaces line 11: the removed and the added line both carry 11.\<close>

theorem parseDiff_lineNumber_witness:
  "replacedLineChunk \<in> set (parseDiff replacedLine)
   \<and> lineType (lines replacedLineChunk ! 1) = Removed
   \<and> lineNumber (lines replacedLineChunk ! 1)
       = oldStart replacedLineChunk
         + length (filter (\<lambda>l. lineType l \<noteq> Added) (take 1 (lines replacedLineChunk)))
   \<and> lineNumber (lines replacedLineChunk ! 1) = 11
   \<and> lineType (lines replacedLineChunk ! 2) = Added
   \<and> lineNumber (lines replacedLineChunk ! 2)
       = newStart replacedLineChunk
         + length (filter (\<lambda>l. lineType l \<noteq> Removed) (take 2 (lines replacedLineChunk)))
   \<and> lineNumber (lines replacedLineChunk ! 2) = 11"
proof -
  have p: "parseDiff replacedLine = [replacedLineChunk]" by code_simp
  then have m: "replacedLineChunk \<in> set (parseDiff replacedLine)" by simp
  have t: "lineType (lines replacedLineChunk ! 1) = Removed"
    "lineType (lines replacedLineChunk ! 2) = Added"
    "lineNumber (lines replacedLineChunk ! 1) = 11"
    "lineNumber (lines replacedLineChunk ! 2) = 11"
    "1 < length (lines replacedLineChunk)" "2 < length (lines replacedLineChunk)"
    by (simp_all add: replacedLineChunk_def)
  from parseDiff_lineNumber [OF m t(5)] parseDiff_lineNumber [OF m t(6)] m t
  show ?thesis by blast
qed

text \<open>
  Claim C5, evaluated on a hunk that removes the line \<^verbatim>\<open>-- old comment\<close>. In the diff
  text that line reads \<^verbatim>\<open>--- old comment\<close>: it begins with \<^verbatim>\<open>-\<close> and is reached while
  the hunk is open, but the test for file headers takes it first. The hunk of the result,
  whose header announces two old lines, holds the context line only.
\<close>

theorem removed_comment_dropped:
  "splitOn (CHR 0x0A) removedComment = [''@@ -1,2 +1,1 @@'', ''--- old comment'', '' kept'']
   \<and> currentChunk (foldl parseLine initial [''@@ -1,2 +1,1 @@''])
       = Some \<lparr> oldStart = 1, oldLines = 2, newStart = 1, newLines = 1, lines = [] \<rparr>
   \<and> startsWith ''--- old comment'' ''-''
   \<and> parseDiff removedComment
       = [\<lparr> oldStart = 1, oldLines = 2, newStart = 1, newLines = 1,
            lines = [\<lparr> lineType = Context, content = ''kept'', lineNumber = 1 \<rparr>] \<rparr>]"
proof -
  have a: "splitOn (CHR 0x0A) removedComment
      = [''@@ -1,2 +1,1 @@'', ''--- old comment'', '' kept'']" by code_simp
  have b: "currentChunk (foldl parseLine initial [''@@ -1,2 +1,1 @@''])
       = Some \<lparr> oldStart = 1, oldLines = 2, newStart = 1, newLines = 1, lines = [] \<rparr>"
    by code_simp
  have c: "startsWith ''--- old comment'' ''-''" by code_simp
  have d: "parseDiff removedComment
       = [\<lparr> oldStart = 1, oldLines = 2, newStart = 1, newLines = 1,
            lines = [\<lparr> lineType = Context, content = ''kept'', lineNumber = 1 \<rparr>] \<rparr>]"
    by code_simp
  from a b c d show ?thesis by blast
qed

text \<open>The added line of the end-to-end diff enters the open hunk behind \<^verbatim>\<open>line1\<close>.\<close>

lemma parseDiff_line_fate_example:
  "isMetadata ''--- old comment''
   \<and> parseDiff removedComment = finish (foldl parseLine initial [''@@ -1,2 +1,1 @@'', '' kept''])
   \<and> currentChunk (foldl parseLine initial [''@@ -1,3 +1,4 @@'', '' line1'']) = Some openChunk
   \<and> \<not> isMetadata ''+added line'' \<and> startsWith ''+added line'' ''+''
   \<and> length (chunks (foldl parseLine initial [''@@ -1,3 +1,4 @@'', '' line1''])) = 0
   \<and> 0 < length (parseDiff endToEnd)
   \<and> (\<exists>l. appendedTo openChunk l (parseDiff endToEnd ! 0)
          \<and> lineType l = Added \<and> content l = ''added line'')"
proof -
  have r: "removedComment \<noteq> []"
    "splitOn (CHR 0x0A) removedComment = [''@@ -1,2 +1,1 @@''] @ ''--- old comment'' # ['' kept'']"
    by code_simp+
  have e: "endToEnd \<noteq> []"
    "splitOn (CHR 0x0A) endToEnd
       = [''@@ -1,3 +1,4 @@'', '' line1''] @ ''+added line'' # ['' line3'']"
    by code_simp+
  have m: "isMetadata ''--- old comment''" by code_simp
  have c: "currentChunk (foldl parseLine initial [''@@ -1,3 +1,4 @@'', '' line1'']) = Some openChunk"
    by code_simp
  have k: "length (chunks (foldl parseLine initial [''@@ -1,3 +1,4 @@'', '' line1''])) = 0"
    by code_simp
  have n: "\<not> isMetadata ''+added line''" "startsWith ''+added line'' ''+''"
    "drop 1 ''+added line'' = ''added line''"
    by code_simp+
  note t1 = parseDiff_line_fate [OF r]
  note t2 = parseDiff_line_fate [OF e, unfolded k]
  have g1: "parseDiff removedComment
      = finish (foldl parseLine initial [''@@ -1,2 +1,1 @@'', '' kept''])"
    using t1 m by simp
  from t2 c n(1,2) have "0 < length (parseDiff endToEnd)
     \<and> (\<exists>l. appendedTo openChunk l (parseDiff endToEnd ! 0)
          \<and> lineType l = (if startsWith ''+added line'' ''+'' then Added
                           else if startsWith ''+added line'' ''-'' then Removed else Context)
          \<and> content l = drop 1 ''+added line'')"
    by blast
  then have g2: "0 < length (parseDiff endToEnd)
     \<and> (\<exists>l. appendedTo openChunk l (parseDiff endToEnd ! 0)
          \<and> lineType l = Added \<and> content l = ''added line'')"
    by (simp only: n if_True)
  from m g1 c n(1,2) k g2 show ?thesis by blast
qed

section \<open>StorageAdapter: loading\<close>

lemma loadEmbeddings_total: "\<exists>loaded. loadEmbeddings d now = Inr loaded"
  by (simp add: loadEmbeddings_def split: sum.splits)



text \<open>
  Claim C8. \<^verbatim>\<open>loadEmbeddings\<close> always returns a collection. When the file is missing or
  cannot be read, when its text is not JSON or is \<^verbatim>\<open>null\<close>, when the version stored is not
  the current one, or when the \<^verbatim>\<open>embeddings\<close> field is missing, the collection returned
  is the empty one with the current version, the same as for a missing file; no stored
  record is kept.
\<close>

theorem loadEmbeddings_never_fails:
  "(\<exists>loaded. loadEmbeddings d now = Inr loaded)
   \<and> (d = NoFile \<or> d = Unreadable \<or> d = File NotJson \<or> d = File (Json JNull)
        \<or> (\<exists>v es l. d = File (Json (JObject v es l)) \<and> v \<noteq> Some EMBEDDING_VERSION)
        \<or> (\<exists>v l. d = File (Json (JObject v None l)))
      \<longrightarrow> loadEmbeddings d now
            = Inr \<lparr> version = EMBEDDING_VERSION, embeddings = [], lastUpdated = now \<rparr>
          \<and> loadEmbeddings d now = loadEmbeddings NoFile now)"
proof (rule conjI)
  show "\<exists>loaded. loadEmbeddings d now = Inr loaded" by (rule loadEmbeddings_total)
next
  show "d = NoFile \<or> d = Unreadable \<or> d = File NotJson \<or> d = File (Json JNull)
        \<or> (\<exists>v es l. d = File (Json (JObject v es l)) \<and> v \<noteq> Some EMBEDDING_VERSION)
        \<or> (\<exists>v l. d = File (Json (JObject v None l)))
      \<longrightarrow> loadEmbeddings d now
            = Inr \<lparr> version = EMBEDDING_VERSION, embeddings = [], lastUpdated = now \<rparr>
          \<and> loadEmbeddings d now = loadEmbeddings NoFile now"
    by (auto simp: loadEmbeddings_def loadEmbeddings_try_def readFile_def JSON_parse_def
        createEmptyEmbeddings_def)
qed

text \<open>A file written under version \<open>0.9\<close>, a file that is not JSON, and an unreadable file.\<close>

theorem loadEmbeddings_never_fails_witness:
  "loadEmbeddings oldDisk 7 = Inr \<lparr> version = EMBEDDING_VERSION, embeddings = [], lastUpdated = 7 \<rparr>
   \<and> loadEmbeddings oldDisk 7 = loadEmbeddings NoFile 7
   \<and> loadEmbeddings (File NotJson) 7 = loadEmbeddings NoFile 7
   \<and> loadEmbeddings Unreadable 7 = loadEmbeddings NoFile 7"
proof -
  have v: "Some ''0.9'' \<noteq> Some EMBEDDING_VERSION" by (simp add: EMBEDDING_VERSION_def)
  from loadEmbeddings_never_fails [of oldDisk 7] v
  have a: "loadEmbeddings oldDisk 7
      = Inr \<lparr> version = EMBEDDING_VERSION, embeddings = [], lastUpdated = 7 \<rparr>
    \<and> loadEmbeddings oldDisk 7 = loadEmbeddings NoFile 7"
    unfolding oldDisk_def by blast
  from loadEmbeddings_never_fails [of "File NotJson" 7]
  have b: "loadEmbeddings (File NotJson) 7 = loadEmbeddings NoFile 7" by blast
  from loadEmbeddings_never_fails [of Unreadable 7]
  have c: "loadEmbeddings Unreadable 7 = loadEmbeddings NoFile 7" by blast
  from a b c show ?thesis by blast
qed

section \<open>StorageAdapter: upsert\<close>

lemma upsert_take:
  "upsert e rs = take MAX_EMBEDDINGS
     (sort_key (\<lambda>r. - ed_createdAt r) (filter (\<lambda>r. ed_id r \<noteq> ed_id e) rs @ [e]))"
  by (simp add: upsert_def Let_def)

lemma length_upsert: "length (upsert e rs) \<le> 1000"
  by (simp add: upsert_take MAX_EMBEDDINGS_def)


















section \<open>extractFunctionChanges and the language hint\<close>

lemma functionLine_language:
  "functionLine rmatch language1 st line = functionLine rmatch language2 st line"
  unfolding functionLine_def detectFunctionDefinition_def by (rule refl)

lemma functionChunk_language:
  "functionChunk rmatch language1 = functionChunk rmatch language2"
proof -
  have "functionLine rmatch language1 = functionLine rmatch language2"
    by (intro ext) (rule functionLine_language)
  then show ?thesis by (intro ext) (simp only: functionChunk_def)
qed

text \<open>
  Claim C10. The result of \<^verbatim>\<open>extractFunctionChanges\<close> is the same for any two values of the
  language hint, absent (\<open>None\<close>) or present: \<^verbatim>\<open>detectFunctionDefinition\<close> tries the six
  patterns in their fixed order on the trimmed line, whatever the hint.
\<close>

theorem extractFunctionChanges_ignores_language:
  "extractFunctionChanges rmatch diff language1 = extractFunctionChanges rmatch diff language2
   \<and> detectFunctionDefinition rmatch line language1
       = firstMatch rmatch [JsFunction, JsMethod, PythonDef, JavaMethod, GoFunc, RustFn] (trim line)"
  by (simp only: extractFunctionChanges_def functionChunk_language [of rmatch language1 language2]
      detectFunctionDefinition_def patterns_def Let_def simp_thms)

end
